theory Spec2Isabelle
  imports Complex_Main "HOL-Library.AList" "HOL-Library.Multiset"
    "HOL-Library.Char_ord" "HOL-Library.List_Lexorder" "HOL-Library.Sublist"
    "HOL-Library.Code_Target_Numeral"
begin

section \<open>Python values, exceptions and the random stream\<close>

text \<open>
  The embedding follows \<^verbatim>\<open>toolkit/dataloader_mixins.py\<close>.  Python integers are
  \<^typ>\<open>int\<close>.  Exceptions are values of type \<open>error\<close>; a function that can raise
  returns \<open>error + 'a\<close> with \<open>Inl\<close> for the exception.
\<close>

datatype error =
    ZeroDivisionError
  | ValueError
  | TypeError
  | UnboundLocalError
  | AssertionError
  | AttributeError
  | OverflowError
  | IndexError
  | HelperError
  | PlainException

text \<open>Sequencing of two steps that can raise.\<close>

definition and_then :: "error + 'a \<Rightarrow> ('a \<Rightarrow> error + 'b) \<Rightarrow> error + 'b" where
  "and_then m f = (case m of Inl e \<Rightarrow> Inl e | Inr x \<Rightarrow> f x)"

subsection \<open>Floats\<close>

text \<open>
  A Python float is an IEEE binary64 number.  A finite float is represented by the real
  number it denotes, and every operation rounds the exact result to the nearest double,
  ties to the even significand: 53 significant bits, and a last place of weight at
  least \<open>2\<^sup>-\<^sup>1\<^sup>0\<^sup>7\<^sup>4\<close> (the subnormal range).
  \<^item> \<open>ilog2 x\<close>: the exponent \<open>k\<close> with \<open>2\<^sup>k \<le> x < 2\<^sup>k\<^sup>+\<^sup>1\<close>, for positive \<open>x\<close>;
  \<^item> \<open>round_even\<close>: the nearest integer, a tie going to the even one;
  \<^item> \<open>ulp_exp x\<close>: the exponent of the last place of the doubles around \<open>x\<close>;
  \<^item> \<open>rd x\<close>: the double nearest to \<open>x\<close>, were the exponent unbounded above.
  A result of magnitude \<open>2\<^sup>1\<^sup>0\<^sup>2\<^sup>4\<close> or more is out of range.  The conversion of an
  integer and the division of two integers then raise \<^verbatim>\<open>OverflowError\<close>; a product
  becomes an infinity, which this module always hands on to \<^verbatim>\<open>int(...)\<close> or
  \<^verbatim>\<open>math.ceil(...)\<close> within the same expression, and these raise
  \<^verbatim>\<open>OverflowError\<close> too.  So \<open>to_double\<close> reports every result out of range as that
  exception.
\<close>

function ilog2 :: "real \<Rightarrow> int" where
  "ilog2 x = (if x \<le> 0 then 0
              else if x < 1 then ilog2 (2 * x) - 1
              else if 2 \<le> x then ilog2 (x / 2) + 1
              else 0)"
  by pat_completeness auto
termination
proof (relation "measure (\<lambda>x. nat \<bar>\<lfloor>log 2 x\<rfloor>\<bar>)")
  show "wf (measure (\<lambda>x. nat \<bar>\<lfloor>log 2 x\<rfloor>\<bar>))" by simp
next
  fix x :: real
  assume a: "\<not> x \<le> 0" "x < 1"
  then have "log 2 (2 * x) = 1 + log 2 x" by (simp add: log_mult)
  moreover from a have "log 2 x < 0" by simp
  then have "\<lfloor>log 2 x\<rfloor> < 0" by linarith
  ultimately have "\<bar>\<lfloor>log 2 (2 * x)\<rfloor>\<bar> < \<bar>\<lfloor>log 2 x\<rfloor>\<bar>"
    by (simp only: floor_add_int floor_one one_add_floor) linarith
  then show "(2 * x, x) \<in> measure (\<lambda>x. nat \<bar>\<lfloor>log 2 x\<rfloor>\<bar>)"
    by simp
next
  fix x :: real
  assume a: "\<not> x \<le> 0" "\<not> x < 1" "2 \<le> x"
  then have "log 2 (x / 2) = log 2 x - 1" by (simp add: log_divide)
  moreover from a have "1 \<le> log 2 x" by (simp add: le_log_iff)
  then have "1 \<le> \<lfloor>log 2 x\<rfloor>" by linarith
  ultimately have "\<bar>\<lfloor>log 2 (x / 2)\<rfloor>\<bar> < \<bar>\<lfloor>log 2 x\<rfloor>\<bar>"
    by simp
  then show "(x / 2, x) \<in> measure (\<lambda>x. nat \<bar>\<lfloor>log 2 x\<rfloor>\<bar>)"
    by simp
qed

declare ilog2.simps [simp del]

definition round_even :: "real \<Rightarrow> int" where
  "round_even x =
     (let n = \<lfloor>x\<rfloor>; r = x - of_int n
      in if r < 1 / 2 then n else if 1 / 2 < r then n + 1 else if even n then n else n + 1)"

definition ulp_exp :: "real \<Rightarrow> int" where
  "ulp_exp x = max (ilog2 \<bar>x\<bar> - 52) (- 1074)"

definition rd :: "real \<Rightarrow> real" where
  "rd x = of_int (round_even (x / 2 powi ulp_exp x)) * 2 powi ulp_exp x"

definition to_double :: "real \<Rightarrow> error + real" where
  "to_double x = (if 2 ^ 1024 \<le> \<bar>rd x\<bar> then Inl OverflowError else Inr (rd x))"

text \<open>
  The operations of the code on numbers:
  \<^item> \<open>py_float n\<close>: the conversion of an integer operand to a float;
  \<^item> \<open>fmul x y\<close>: the product \<^verbatim>\<open>x * y\<close> of two floats;
  \<^item> \<open>py_mul n x\<close>: the product \<^verbatim>\<open>n * x\<close> of an integer and a float;
  \<^item> \<open>py_truediv a b\<close>: the true division \<^verbatim>\<open>a / b\<close> of two integers, which
    rounds the exact quotient once;
  \<^item> \<open>py_int x\<close>: \<^verbatim>\<open>int(x)\<close>, truncation towards zero;
  \<^item> \<open>py_ceil x\<close>: \<^verbatim>\<open>math.ceil(x)\<close>.
\<close>

definition py_float :: "int \<Rightarrow> error + real" where
  "py_float n = to_double (of_int n)"

definition fmul :: "real \<Rightarrow> real \<Rightarrow> error + real" where
  "fmul x y = to_double (x * y)"

definition py_mul :: "int \<Rightarrow> real \<Rightarrow> error + real" where
  "py_mul n x = and_then (py_float n) (\<lambda>y. fmul y x)"

definition py_truediv :: "int \<Rightarrow> int \<Rightarrow> error + real" where
  "py_truediv a b =
     (if b = 0 then Inl ZeroDivisionError else to_double (of_int a / of_int b))"

definition py_int :: "real \<Rightarrow> int" where
  "py_int q = (if 0 \<le> q then \<lfloor>q\<rfloor> else \<lceil>q\<rceil>)"

definition py_ceil :: "real \<Rightarrow> int" where
  "py_ceil q = \<lceil>q\<rceil>"

subsection \<open>The random stream\<close>

text \<open>
  The module-level generator \<^verbatim>\<open>random\<close> is a stream of draws passed through every
  operation that uses it.  The stream is a list of naturals continued by zeros; each
  library call consumes one draw.
\<close>

type_synonym rng = "nat list"

fun draw :: "rng \<Rightarrow> nat \<times> rng" where
  "draw [] = (0, [])"
| "draw (r # g) = (r, g)"

text \<open>
  \<^verbatim>\<open>random.randint(a, b)\<close>: an integer of \<open>[a, b]\<close>, \<^verbatim>\<open>ValueError\<close> when the range is
  empty.
\<close>

definition randint :: "int \<Rightarrow> int \<Rightarrow> rng \<Rightarrow> error + (int \<times> rng)" where
  "randint a b g =
     (if b < a then Inl ValueError
      else (case draw g of (r, g') \<Rightarrow> Inr (a + int (r mod nat (b - a + 1)), g')))"

text \<open>\<^verbatim>\<open>random.random()\<close>: a multiple of \<open>2\<^sup>-\<^sup>5\<^sup>3\<close> in \<open>[0, 1)\<close>, which is a double.\<close>

definition random_unit :: "rng \<Rightarrow> real \<times> rng" where
  "random_unit g = (case draw g of (r, g') \<Rightarrow> (of_nat (r mod 2 ^ 53) / 2 ^ 53, g'))"

section \<open>Configuration, items and the absent bucket helpers\<close>

text \<open>One entry of \<^verbatim>\<open>dataset_config.augmentations\<close>, and \<^verbatim>\<open>class Augments\<close>.\<close>

datatype param = PStr string | PInt int | PNum real | PBool bool

record Augments =
  method_name :: string
  params :: "(string \<times> param) list"

record DatasetConfig =
  resolution :: int
  bucket_tolerance :: int
  scale :: real
  random_crop :: bool
  poi :: "string option"
  cfg_buckets :: bool
  invert_mask :: bool
  augmentations :: "Augments list option"
  shuffle_augmentations :: bool

text \<open>
  One step of the record captured by \<^verbatim>\<open>A.ReplayCompose\<close> (an entry of
  \<^verbatim>\<open>replay['transforms']\<close>) and the record itself.
\<close>

record replay_step =
  class_fullname :: string
  applied :: bool
  realized :: "(string \<times> param) list"

record replay =
  replay_class :: string
  transforms :: "replay_step list"

text \<open>
  Images are histories of library calls: PIL, numpy, OpenCV and albumentations are not
  evaluated, each call is a constructor applied to the image it was given.  The order of
  the calls made by the code can then be read off the value.
  \<^item> \<open>Opened p\<close>: \<^verbatim>\<open>exif_transpose(Image.open(p))\<close>;
  \<^item> \<open>AlphaToRGB\<close>: the alpha channel copied into the three colour channels;
  \<^item> \<open>Convert m\<close>: \<^verbatim>\<open>img.convert(m)\<close>; \<open>Invert\<close>: \<^verbatim>\<open>ImageOps.invert\<close>;
  \<^item> \<open>FlipLeftRight\<close>, \<open>FlipTopBottom\<close>: \<^verbatim>\<open>img.transpose(...)\<close>;
  \<^item> \<open>GaussianBlur r\<close>, \<open>Resize w h\<close> (bicubic), \<open>Crop left upper right lower\<close>;
  \<^item> \<open>ArrayBGR\<close>: \<^verbatim>\<open>np.array(img)[:, :, ::-1].copy()\<close>;
  \<^item> \<open>CvtColorBGR2RGB\<close>, \<open>FromArray\<close>: \<^verbatim>\<open>cv2.cvtColor\<close>, \<^verbatim>\<open>Image.fromarray\<close>;
  \<^item> \<open>Replay r\<close>, \<open>Composed p r\<close>: what a call of albumentations returns.  The two
    calls themselves, \<^verbatim>\<open>A.ReplayCompose.replay\<close> and the composed pipeline, are
    parameters of the model (see \<open>imaging\<close> below); these constructors serve the
    instances of that parameter.
  Tensors are \<^verbatim>\<open>transforms.ToTensor()(img)\<close>, the result of a named torchvision
  transform, and \<^verbatim>\<open>value_map\<close> of \<^verbatim>\<open>toolkit.basic\<close> applied to a tensor.
\<close>

datatype image =
    Opened string
  | AlphaToRGB image
  | Convert string image
  | Invert image
  | FlipLeftRight image
  | FlipTopBottom image
  | GaussianBlur int image
  | Resize int int image
  | Crop int int int int image
  | ArrayBGR image
  | Replay replay image
  | CvtColorBGR2RGB image
  | FromArray image
  | Composed "Augments list" replay image

datatype tensor =
    ToTensor image
  | Transform string image
  | ValueMap real real real real tensor

text \<open>
  The fields of \<^verbatim>\<open>FileItemDTO\<close> that the mixins below read or write.  Three names
  differ from the source, where a field name is already taken: \<open>latent_path\<close> is
  \<^verbatim>\<open>_latent_path\<close>, \<open>cfg_buckets\<close> is \<^verbatim>\<open>dataset_config.buckets\<close>, and the
  configuration of a dataset is \<open>ds_config\<close>; the width and height of a
  \<^verbatim>\<open>Bucket\<close> are \<open>bucket_width\<close> and \<open>bucket_height\<close>.  The geometry fields are
  integers: they are set by \<^verbatim>\<open>setup_buckets\<close> before they are read.
\<close>

record FileItemDTO =
  path :: string
  width :: int
  height :: int
  dataset_config :: DatasetConfig
  scale_to_width :: int
  scale_to_height :: int
  crop_x :: int
  crop_y :: int
  crop_width :: int
  crop_height :: int
  flip_x :: bool
  flip_y :: bool
  has_point_of_interest :: bool
  poi_x :: int
  poi_y :: int
  poi_width :: int
  poi_height :: int
  latent_space_version :: string
  latent_version :: int
  latent_path :: "string option"
  aug_transform :: "Augments list option"
  has_augmentations :: bool
  aug_replay_spatial_transforms :: "replay option"
  unaugmented_tensor :: "tensor option"
  mask_path :: "string option"
  use_alpha_as_mask :: bool
  mask_min_value :: real
  mask_tensor :: "tensor option"

text \<open>
  \<^verbatim>\<open>toolkit/buckets.py\<close> is not among the sources.  Its two functions are parameters of
  the model; \<open>None\<close> stands for a call that raises.
  \<^item> \<open>get_resolution w h\<close>: the effective resolution of a \<open>w \<times> h\<close> window;
  \<^item> \<open>get_bucket_for_image_size w h resolution divisibility\<close>: the width and height of the
    bucket chosen for a \<open>w \<times> h\<close> image.
\<close>

record toolkit_buckets =
  get_resolution :: "int \<Rightarrow> int \<Rightarrow> int option"
  get_bucket_for_image_size :: "int \<Rightarrow> int \<Rightarrow> int \<Rightarrow> int \<Rightarrow> (int \<times> int) option"

text \<open>
  \<^verbatim>\<open>int(v * self.dataset_config.scale)\<close>, the scaling of a source-pixel length.  The
  float that the configuration holds is the double nearest to the number of the record.
\<close>

definition scaled :: "FileItemDTO \<Rightarrow> int \<Rightarrow> error + int" where
  "scaled self v =
     and_then (py_mul v (rd (scale (dataset_config self)))) (\<lambda>x. Inr (py_int x))"

definition helper :: "'a option \<Rightarrow> error + 'a" where
  "helper r = (case r of None \<Rightarrow> Inl HelperError | Some v \<Rightarrow> Inr v)"

section \<open>Bucket assignment: the standard path\<close>

text \<open>
  The block under \<^verbatim>\<open>if not did_process_poi:\<close> of \<^verbatim>\<open>BucketsMixin.setup_buckets\<close>.
  \<open>cfg\<close> is the dataset's configuration, \<open>w\<close> and \<open>h\<close> are the scaled natural
  sizes computed at the head of the loop body.
\<close>

definition crop_offsets ::
  "bool \<Rightarrow> int \<Rightarrow> int \<Rightarrow> int \<Rightarrow> int \<Rightarrow> rng \<Rightarrow> error + ((int \<times> int) \<times> rng)" where
  "crop_offsets rand stw sth new_width new_height g =
     (if rand then
        and_then (randint 0 (stw - new_width) g) (\<lambda>(cx, g1).
        and_then (randint 0 (sth - new_height) g1) (\<lambda>(cy, g2).
        Inr ((cx, cy), g2)))
      else
        and_then (py_truediv (stw - new_width) 2) (\<lambda>half_x.
        and_then (py_truediv (sth - new_height) 2) (\<lambda>half_y.
        Inr ((py_int half_x, py_int half_y), g))))"

definition setup_standard_bucket ::
  "toolkit_buckets \<Rightarrow> DatasetConfig \<Rightarrow> int \<Rightarrow> int \<Rightarrow> FileItemDTO \<Rightarrow> rng
     \<Rightarrow> error + (FileItemDTO \<times> rng)" where
  "setup_standard_bucket lib cfg w h file_item g =
     and_then (helper (get_bucket_for_image_size lib w h (resolution cfg) (bucket_tolerance cfg)))
       (\<lambda>(bw, bh).
     and_then (py_truediv bw w) (\<lambda>width_scale_factor.
     and_then (py_truediv bh h) (\<lambda>height_scale_factor.
     (let max_scale_factor = max width_scale_factor height_scale_factor
      in and_then (py_mul w max_scale_factor) (\<lambda>enlarged_width.
         and_then (py_mul h max_scale_factor) (\<lambda>enlarged_height.
         (let stw = py_ceil enlarged_width;
              sth = py_ceil enlarged_height
          in and_then (crop_offsets (random_crop cfg) stw sth bw bh g) (\<lambda>((cx, cy), g').
             Inr (file_item\<lparr>scale_to_width := stw, scale_to_height := sth,
                             crop_height := bh, crop_width := bw,
                             crop_x := cx, crop_y := cy\<rparr>, g')))))))))"

section \<open>Point-of-interest cropping\<close>

text \<open>
  \<^verbatim>\<open>PoiFileItemDTOMixin.setup_poi_bucket\<close>.  A window is the tuple of the loop's local
  variables \<^verbatim>\<open>(poi_x, poi_y, poi_width, poi_height)\<close>, written \<open>(px, py, pw, ph)\<close>.  \<open>poi_expand\<close> is one pass of
  the \<^verbatim>\<open>while True:\<close> body up to the new \<^verbatim>\<open>poi_height\<close>: each edge is redrawn from the
  current values of the variables, in the order of the source.
\<close>

type_synonym window = "int \<times> int \<times> int \<times> int"

definition poi_expand :: "int \<Rightarrow> int \<Rightarrow> window \<Rightarrow> rng \<Rightarrow> error + (window \<times> rng)" where
  "poi_expand initial_width initial_height win g =
     (case win of (px, py, pw, ph) \<Rightarrow>
        and_then (if px > 0 then randint 0 px g else Inr (0, g)) (\<lambda>(px', g1).
        and_then (if px' + pw < initial_width
                  then randint (px' + pw) initial_width g1
                  else Inr (initial_width, g1)) (\<lambda>(crop_right, g2).
        and_then (if py > 0 then randint 0 py g2 else Inr (0, g2)) (\<lambda>(py', g3).
        and_then (if py' + ph < initial_height
                  then randint (py' + ph) initial_height g3
                  else Inr (initial_height, g3)) (\<lambda>(crop_bottom, g4).
        Inr ((px', py', crop_right - px', crop_bottom - py'), g4))))))"

text \<open>
  The search loop.  \<open>num_loops\<close> is the source's counter; the result carries its final
  value.  \<open>None\<close> is the \<^verbatim>\<open>return False\<close> after the warning; an exception of
  \<^verbatim>\<open>get_resolution\<close> is printed and raised again.
\<close>

function poi_search ::
  "toolkit_buckets \<Rightarrow> int \<Rightarrow> int \<Rightarrow> int \<Rightarrow> window \<Rightarrow> nat \<Rightarrow> rng
     \<Rightarrow> error + (window option \<times> nat \<times> rng)" where
  "poi_search lib res initial_width initial_height win num_loops g =
     (case poi_expand initial_width initial_height win g of
        Inl e \<Rightarrow> Inl e
      | Inr (win', g') \<Rightarrow>
          (case get_resolution lib (fst (snd (snd win'))) (snd (snd (snd win'))) of
             None \<Rightarrow> Inl HelperError
           | Some current_resolution \<Rightarrow>
               if current_resolution \<ge> res then Inr (Some win', num_loops, g')
               else if num_loops + 1 > 100 then Inr (None, num_loops + 1, g')
               else poi_search lib res initial_width initial_height win' (num_loops + 1) g'))"
  by pat_completeness auto
termination
  by (relation "measure (\<lambda>(lib, res, iw, ih, win, num_loops, g). 101 - num_loops)") auto

declare poi_search.simps [simp del]

definition setup_poi_bucket ::
  "toolkit_buckets \<Rightarrow> FileItemDTO \<Rightarrow> rng \<Rightarrow> error + (bool \<times> FileItemDTO \<times> rng)" where
  "setup_poi_bucket lib self g =
     (let cfg = dataset_config self
      in and_then (scaled self (width self)) (\<lambda>initial_width.
         and_then (scaled self (height self)) (\<lambda>initial_height.
         and_then (helper (get_resolution lib initial_width initial_height)) (\<lambda>img_resolution.
         if img_resolution \<le> resolution cfg then Inr (False, self, g)
         else
           and_then (scaled self (poi_x self)) (\<lambda>px.
           and_then (scaled self (poi_y self)) (\<lambda>py.
           and_then (scaled self (poi_width self)) (\<lambda>pw.
           and_then (scaled self (poi_height self)) (\<lambda>ph.
           and_then (poi_search lib (resolution cfg) initial_width initial_height
                       (px, py, pw, ph) 0 g) (\<lambda>(found, num_loops, g').
           case found of
             None \<Rightarrow> Inr (False, self, g')
           | Some (px', py', new_width, new_height) \<Rightarrow>
               and_then (helper (get_bucket_for_image_size lib new_width new_height
                                   (resolution cfg) (bucket_tolerance cfg))) (\<lambda>(bw, bh).
               and_then (py_truediv bw new_width) (\<lambda>width_scale_factor.
               and_then (py_truediv bh new_height) (\<lambda>height_scale_factor.
               (let max_scale_factor = max width_scale_factor height_scale_factor
                in and_then (py_mul initial_width max_scale_factor) (\<lambda>enlarged_width.
                   and_then (py_mul initial_height max_scale_factor) (\<lambda>enlarged_height.
                   and_then (py_mul px' max_scale_factor) (\<lambda>moved_x.
                   and_then (py_mul py' max_scale_factor) (\<lambda>moved_y.
                   Inr (True,
                        self\<lparr>scale_to_width := py_ceil enlarged_width,
                             scale_to_height := py_ceil enlarged_height,
                             crop_width := bw, crop_height := bh,
                             crop_x := py_int moved_x,
                             crop_y := py_int moved_y\<rparr>,
                        g'))))))))))))))))))"

section \<open>Buckets of a dataset\<close>

text \<open>\<^verbatim>\<open>str(n)\<close> for an integer, as the f-string of the bucket key prints it.\<close>

definition digit :: "nat \<Rightarrow> char" where
  "digit d = ''0123456789'' ! d"

fun str_nat :: "nat \<Rightarrow> string" where
  "str_nat n = (if n < 10 then [digit n] else str_nat (n div 10) @ [digit (n mod 10)])"

declare str_nat.simps [simp del]

definition str_int :: "int \<Rightarrow> string" where
  "str_int i = (if i < 0 then CHR ''-'' # str_nat (nat (- i)) else str_nat (nat i))"

record Bucket =
  bucket_width :: int
  bucket_height :: int
  file_list_idx :: "nat list"

record AiToolkitDataset =
  file_list :: "FileItemDTO list"
  ds_config :: DatasetConfig
  epoch_num :: int
  batch_size :: int
  buckets :: "(string \<times> Bucket) list"
  batch_indices :: "nat list list"

text \<open>
  The body of the \<^verbatim>\<open>for idx, file_item in enumerate(file_list)\<close> loop of
  \<^verbatim>\<open>setup_buckets\<close>: first the geometry of the item, then its bucket.  The dictionary
  \<^verbatim>\<open>self.buckets\<close> keeps insertion order, so it is an association list.
\<close>

definition setup_item ::
  "toolkit_buckets \<Rightarrow> DatasetConfig \<Rightarrow> FileItemDTO \<Rightarrow> rng \<Rightarrow> error + (FileItemDTO \<times> rng)" where
  "setup_item lib cfg file_item g =
     and_then (scaled file_item (width file_item)) (\<lambda>w.
     and_then (scaled file_item (height file_item)) (\<lambda>h.
     and_then (if has_point_of_interest file_item then setup_poi_bucket lib file_item g
               else Inr (False, file_item, g)) (\<lambda>(did_process_poi, file_item', g').
     if \<not> did_process_poi then setup_standard_bucket lib cfg w h file_item' g'
     else Inr (file_item', g'))))"

definition bucket_key :: "FileItemDTO \<Rightarrow> string" where
  "bucket_key file_item = str_int (crop_width file_item) @ ''x'' @ str_int (crop_height file_item)"

definition add_to_bucket ::
  "FileItemDTO \<Rightarrow> nat \<Rightarrow> (string \<times> Bucket) list \<Rightarrow> (string \<times> Bucket) list" where
  "add_to_bucket file_item idx bs =
     (let key = bucket_key file_item;
          bs' = (if key \<notin> set (map fst bs)
                 then bs @ [(key, \<lparr>bucket_width = crop_width file_item,
                                    bucket_height = crop_height file_item,
                                    file_list_idx = []\<rparr>)]
                 else bs)
      in AList.map_entry key (\<lambda>b. b\<lparr>file_list_idx := file_list_idx b @ [idx]\<rparr>) bs')"

fun setup_buckets_loop ::
  "toolkit_buckets \<Rightarrow> DatasetConfig \<Rightarrow> nat \<Rightarrow> FileItemDTO list \<Rightarrow> (string \<times> Bucket) list \<Rightarrow> rng
     \<Rightarrow> error + (FileItemDTO list \<times> (string \<times> Bucket) list \<times> rng)" where
  "setup_buckets_loop lib cfg idx [] bs g = Inr ([], bs, g)"
| "setup_buckets_loop lib cfg idx (file_item # rest) bs g =
     and_then (setup_item lib cfg file_item g) (\<lambda>(file_item', g1).
     and_then (setup_buckets_loop lib cfg (Suc idx) rest (add_to_bucket file_item' idx bs) g1)
       (\<lambda>(rest', bs', g2). Inr (file_item' # rest', bs', g2)))"

text \<open>
  \<^verbatim>\<open>random.shuffle\<close>: for \<open>i\<close> from the last index down to 1, swap position \<open>i\<close>
  with a drawn position \<open>j \<le> i\<close>.
\<close>

fun shuffle_from :: "nat \<Rightarrow> 'a list \<Rightarrow> rng \<Rightarrow> 'a list \<times> rng" where
  "shuffle_from 0 xs g = (xs, g)"
| "shuffle_from (Suc i) xs g =
     (case draw g of (r, g') \<Rightarrow>
        (let j = r mod (Suc i + 1)
         in shuffle_from i (xs[Suc i := xs ! j, j := xs ! Suc i]) g'))"

definition shuffle :: "'a list \<Rightarrow> rng \<Rightarrow> 'a list \<times> rng" where
  "shuffle xs g = shuffle_from (length xs - 1) xs g"

fun shuffle_buckets :: "(string \<times> Bucket) list \<Rightarrow> rng \<Rightarrow> (string \<times> Bucket) list \<times> rng" where
  "shuffle_buckets [] g = ([], g)"
| "shuffle_buckets ((key, bucket) # bs) g =
     (case shuffle (file_list_idx bucket) g of (idxs, g1) \<Rightarrow>
        (case shuffle_buckets bs g1 of (bs', g2) \<Rightarrow>
           ((key, bucket\<lparr>file_list_idx := idxs\<rparr>) # bs', g2)))"

text \<open>
  \<^verbatim>\<open>build_batch_indices\<close>: \<^verbatim>\<open>range(0, n, batch_size)\<close> raises for a step of zero and
  is empty for a negative step.
\<close>

fun chunks :: "nat \<Rightarrow> 'a list \<Rightarrow> 'a list list" where
  "chunks n xs = (if n = 0 \<or> xs = [] then [] else take n xs # chunks n (drop n xs))"

declare chunks.simps [simp del]

definition batches_of :: "int \<Rightarrow> nat list \<Rightarrow> error + nat list list" where
  "batches_of bsize idxs =
     (if bsize = 0 then Inl ValueError
      else if bsize < 0 then Inr []
      else Inr (chunks (nat bsize) idxs))"

fun build_batch_indices :: "int \<Rightarrow> (string \<times> Bucket) list \<Rightarrow> error + nat list list" where
  "build_batch_indices bsize [] = Inr []"
| "build_batch_indices bsize ((key, bucket) # bs) =
     and_then (batches_of bsize (file_list_idx bucket)) (\<lambda>batches.
     and_then (build_batch_indices bsize bs) (\<lambda>rest. Inr (batches @ rest)))"

text \<open>
  \<^verbatim>\<open>BucketsMixin.setup_buckets\<close>.  The two \<^verbatim>\<open>hasattr\<close> checks hold of every value of
  the record.  After the first epoch, and without a point of interest, nothing is
  rebuilt.
\<close>

definition rebuilds :: "AiToolkitDataset \<Rightarrow> bool" where
  "rebuilds self = (\<not> (epoch_num self > 0 \<and> poi (ds_config self) = None))"

definition setup_buckets ::
  "toolkit_buckets \<Rightarrow> AiToolkitDataset \<Rightarrow> rng \<Rightarrow> error + (AiToolkitDataset \<times> rng)" where
  "setup_buckets lib self g =
     (if epoch_num self > 0 \<and> poi (ds_config self) = None then Inr (self, g)
      else
        and_then (setup_buckets_loop lib (ds_config self) 0 (file_list self) [] g)
          (\<lambda>(items, bs, g1).
        (case shuffle_buckets bs g1 of (bs', g2) \<Rightarrow>
           and_then (build_batch_indices (batch_size self) bs') (\<lambda>batches.
           Inr (self\<lparr>file_list := items, buckets := bs', batch_indices := batches\<rparr>, g2)))))"

section \<open>Strings and paths\<close>

text \<open>\<^verbatim>\<open>s.split(c)\<close> and \<^verbatim>\<open>s.upper()\<close> on ASCII letters.\<close>

fun split_on :: "char \<Rightarrow> string \<Rightarrow> string list" where
  "split_on c [] = [[]]"
| "split_on c (x # xs) =
     (if x = c then [] # split_on c xs
      else (case split_on c xs of [] \<Rightarrow> [[x]] | w # ws \<Rightarrow> (x # w) # ws))"

definition upper_char :: "char \<Rightarrow> char" where
  "upper_char c =
     (if CHR ''a'' \<le> c \<and> c \<le> CHR ''z'' then char_of (of_char c - (32 :: nat)) else c)"

text \<open>
  \<^verbatim>\<open>os.path\<close> on POSIX: \<^verbatim>\<open>basename\<close>, \<^verbatim>\<open>dirname\<close>, \<^verbatim>\<open>join\<close> of two parts, and
  the root that \<^verbatim>\<open>splitext(p)[0]\<close> returns (the extension starts at the last dot
  of the last component, unless only dots precede it there).
\<close>

definition basename :: "string \<Rightarrow> string" where
  "basename p = rev (takeWhile (\<lambda>c. c \<noteq> CHR ''/'') (rev p))"

definition dirname :: "string \<Rightarrow> string" where
  "dirname p =
     (let head = rev (dropWhile (\<lambda>c. c \<noteq> CHR ''/'') (rev p))
      in if head \<noteq> [] \<and> \<not> (\<forall>c \<in> set head. c = CHR ''/'')
         then rev (dropWhile (\<lambda>c. c = CHR ''/'') (rev head))
         else head)"

definition path_join :: "string \<Rightarrow> string \<Rightarrow> string" where
  "path_join a b =
     (if b \<noteq> [] \<and> hd b = CHR ''/'' then b
      else if a = [] \<or> last a = CHR ''/'' then a @ b
      else a @ ''/'' @ b)"

definition splitext_root :: "string \<Rightarrow> string" where
  "splitext_root p =
     (let name = basename p;
          ext = rev (takeWhile (\<lambda>c. c \<noteq> CHR ''.'') (rev name));
          stem = take (length name - length ext - 1) name
      in if CHR ''.'' \<in> set name \<and> (\<exists>c \<in> set stem. c \<noteq> CHR ''.'')
         then take (length p - length ext - 1) p
         else p)"

section \<open>The latent cache key\<close>

text \<open>
  \<^verbatim>\<open>LatentCachingFileItemDTOMixin\<close>.  The \<^verbatim>\<open>OrderedDict\<close> is the list of its items.
  The standard library is a parameter: \<open>json_dumps\<close> renders the items of a dictionary
  in the order given and encodes the text as UTF-8, \<open>md5_b64\<close> is
  \<^verbatim>\<open>base64.urlsafe_b64encode(hashlib.md5(...).digest()).decode('ascii')\<close>.  With
  \<^verbatim>\<open>sort_keys=True\<close> the encoder sorts the items by key before it renders them.
\<close>

datatype jvalue = JStr string | JInt int | JBool bool

record stdlib =
  json_dumps :: "(string \<times> jvalue) list \<Rightarrow> string"
  md5_b64 :: "string \<Rightarrow> string"

definition get_latent_info_dict :: "FileItemDTO \<Rightarrow> (string \<times> jvalue) list" where
  "get_latent_info_dict self =
     [(''filename'', JStr (basename (path self))),
      (''scale_to_width'', JInt (scale_to_width self)),
      (''scale_to_height'', JInt (scale_to_height self)),
      (''crop_x'', JInt (crop_x self)),
      (''crop_y'', JInt (crop_y self)),
      (''crop_width'', JInt (crop_width self)),
      (''crop_height'', JInt (crop_height self)),
      (''latent_space_version'', JStr (latent_space_version self)),
      (''latent_version'', JInt (latent_version self))]
     @ (if flip_x self then [(''flip_x'', JBool True)] else [])
     @ (if flip_y self then [(''flip_y'', JBool True)] else [])"

definition dumps_sort_keys :: "stdlib \<Rightarrow> (string \<times> jvalue) list \<Rightarrow> string" where
  "dumps_sort_keys lib d = json_dumps lib (sort_key fst d)"

definition compute_latent_path :: "stdlib \<Rightarrow> FileItemDTO \<Rightarrow> string" where
  "compute_latent_path lib self =
     (let img_dir = dirname (path self);
          latent_dir = path_join img_dir ''_latent_cache'';
          hash_dict = get_latent_info_dict self;
          filename_no_ext = splitext_root (basename (path self));
          hash_input = dumps_sort_keys lib hash_dict;
          hash_str = filter (\<lambda>c. c \<noteq> CHR ''='') (md5_b64 lib hash_input)
      in path_join latent_dir (filename_no_ext @ ''_'' @ hash_str @ ''.safetensors''))"

definition get_latent_path :: "stdlib \<Rightarrow> FileItemDTO \<Rightarrow> bool \<Rightarrow> string \<times> FileItemDTO" where
  "get_latent_path lib self recalculate =
     (case latent_path self of
        Some p \<Rightarrow>
          if \<not> recalculate then (p, self)
          else (compute_latent_path lib self,
                self\<lparr>latent_path := Some (compute_latent_path lib self)\<rparr>)
      | None \<Rightarrow> (compute_latent_path lib self,
                 self\<lparr>latent_path := Some (compute_latent_path lib self)\<rparr>))"

section \<open>Augmentation and replay\<close>

text \<open>
  The imaging libraries are parameters:
  \<^item> \<open>can_open p\<close>: \<^verbatim>\<open>Image.open(p)\<close> and \<^verbatim>\<open>exif_transpose\<close> succeed;
  \<^item> \<open>size_of\<close>, \<open>mode_of\<close>: \<^verbatim>\<open>img.size\<close> and \<^verbatim>\<open>img.mode\<close>;
  \<^item> \<open>array_channels img\<close>: the length of the third axis of \<^verbatim>\<open>np.array(img)\<close>,
    \<open>None\<close> when the array has two axes only (a single-band image); an array made
    from a PIL image has at most four channels;
  \<^item> \<open>has_method n\<close>: \<^verbatim>\<open>hasattr(A, n)\<close>; \<open>cv2_attr n\<close>: the attribute \<open>n\<close> of \<^verbatim>\<open>cv2\<close>;
  \<^item> \<open>compose_call\<close>: a call of the \<^verbatim>\<open>A.ReplayCompose\<close> built from the given steps,
    which draws from the random stream and returns the image and the captured record;
  \<^item> \<open>replay_call r img\<close>: \<^verbatim>\<open>A.ReplayCompose.replay(r, image=img)["image"]\<close>.  The
    call is handed the random stream like every other call of the library: whether it
    uses it is a property of the library, not of this module.
\<close>

record imaging =
  can_open :: "string \<Rightarrow> bool"
  size_of :: "image \<Rightarrow> int \<times> int"
  mode_of :: "image \<Rightarrow> string"
  array_channels :: "image \<Rightarrow> nat option"
  has_method :: "string \<Rightarrow> bool"
  cv2_attr :: "string \<Rightarrow> param option"
  compose_call :: "Augments list \<Rightarrow> image \<Rightarrow> rng \<Rightarrow> image \<times> replay \<times> rng"
  replay_call :: "replay \<Rightarrow> image \<Rightarrow> rng \<Rightarrow> image \<times> rng"

text \<open>\<^verbatim>\<open>Augments.__init__\<close>: a string parameter \<^verbatim>\<open>cv2.NAME\<close> becomes the cv2 constant.\<close>

definition convert_param :: "imaging \<Rightarrow> param \<Rightarrow> error + param" where
  "convert_param lib v =
     (case v of
        PStr s \<Rightarrow>
          (case split_on CHR ''.'' s of
             [a, b] \<Rightarrow>
               if a = ''cv2'' then
                 (if cv2_attr lib b \<noteq> None then
                    (case cv2_attr lib (map upper_char b) of
                       Some v' \<Rightarrow> Inr v'
                     | None \<Rightarrow> Inl AttributeError)
                  else Inl ValueError)
               else Inr v
           | _ \<Rightarrow> Inr v)
      | _ \<Rightarrow> Inr v)"

fun convert_params :: "imaging \<Rightarrow> (string \<times> param) list \<Rightarrow> error + (string \<times> param) list" where
  "convert_params lib [] = Inr []"
| "convert_params lib ((key, v) # kvs) =
     and_then (convert_param lib v) (\<lambda>v'.
     and_then (convert_params lib kvs) (\<lambda>kvs'. Inr ((key, v') # kvs')))"

definition make_augments :: "imaging \<Rightarrow> Augments \<Rightarrow> error + Augments" where
  "make_augments lib aug =
     and_then (convert_params lib (params aug)) (\<lambda>ps. Inr (aug\<lparr>params := ps\<rparr>))"

fun make_all_augments :: "imaging \<Rightarrow> Augments list \<Rightarrow> error + Augments list" where
  "make_all_augments lib [] = Inr []"
| "make_all_augments lib (aug # augs) =
     and_then (make_augments lib aug) (\<lambda>a.
     and_then (make_all_augments lib augs) (\<lambda>as. Inr (a # as)))"

text \<open>\<^verbatim>\<open>AugmentationFileItemDTOMixin.build_augmentation_transform\<close>.\<close>

definition build_augmentation_transform ::
  "imaging \<Rightarrow> FileItemDTO \<Rightarrow> rng \<Rightarrow> error + (FileItemDTO \<times> rng)" where
  "build_augmentation_transform lib self g =
     (case augmentations (dataset_config self) of
        None \<Rightarrow> Inr (self, g)
      | Some augs \<Rightarrow>
          if length augs > 0 then
            and_then (make_all_augments lib augs) (\<lambda>made.
              (case (if shuffle_augmentations (dataset_config self) then shuffle made g
                     else (made, g)) of
                 (ordered, g') \<Rightarrow>
                   if \<forall>aug \<in> set ordered. has_method lib (method_name aug)
                   then Inr (self\<lparr>has_augmentations := True, aug_transform := Some ordered\<rparr>, g')
                   else Inl AssertionError))
          else Inr (self, g))"

text \<open>
  A torchvision transform maps an image to a tensor and may draw from the random stream;
  \<open>to_tensor\<close> is \<^verbatim>\<open>transforms.Compose([transforms.ToTensor()])\<close>.  The argument
  \<^verbatim>\<open>transform\<close> of the methods below is \<open>None\<close> or a transform.
\<close>

type_synonym transform = "image \<Rightarrow> rng \<Rightarrow> tensor \<times> rng"

definition to_tensor :: transform where
  "to_tensor img g = (ToTensor img, g)"

definition apply_transform :: "transform option \<Rightarrow> image \<Rightarrow> rng \<Rightarrow> tensor \<times> rng" where
  "apply_transform transform img g =
     (case transform of None \<Rightarrow> (ToTensor img, g) | Some f \<Rightarrow> f img g)"

text \<open>\<^verbatim>\<open>AugmentationFileItemDTOMixin.augment_image\<close>.\<close>

definition spatial_transforms :: "string list" where
  "spatial_transforms = [''Rotate'', ''Flip'', ''HorizontalFlip'', ''VerticalFlip'', ''Resize'',
     ''Crop'', ''RandomCrop'', ''ElasticTransform'', ''GridDistortion'', ''OpticalDistortion'']"

definition class_name :: "replay_step \<Rightarrow> string" where
  "class_name t = last (split_on CHR ''.'' (class_fullname t))"

definition augment_image ::
  "imaging \<Rightarrow> FileItemDTO \<Rightarrow> image \<Rightarrow> transform option \<Rightarrow> rng
     \<Rightarrow> error + (tensor \<times> FileItemDTO \<times> rng)" where
  "augment_image lib self img transform g =
     and_then (if shuffle_augmentations (dataset_config self)
               then build_augmentation_transform lib self g else Inr (self, g)) (\<lambda>(self1, g1).
     (case apply_transform transform img g1 of (unaugmented, g2) \<Rightarrow>
        (let self2 = self1\<lparr>unaugmented_tensor := Some unaugmented\<rparr>;
             open_cv_image = ArrayBGR img
         in case aug_transform self2 of
              None \<Rightarrow> Inl TypeError
            | Some pipeline \<Rightarrow>
                (case compose_call lib pipeline open_cv_image g2 of
                   (augmented, augmented_params, g3) \<Rightarrow>
                     (let kept = augmented_params\<lparr>transforms :=
                            filter (\<lambda>t. class_name t \<in> set spatial_transforms)
                              (transforms augmented_params)\<rparr>;
                          self3 = self2\<lparr>aug_replay_spatial_transforms := Some kept\<rparr>;
                          augmented' = FromArray (CvtColorBGR2RGB augmented)
                      in case apply_transform transform augmented' g3 of
                           (augmented_tensor, g4) \<Rightarrow> Inr (augmented_tensor, self3, g4))))))"

text \<open>
  \<^verbatim>\<open>augment_spatial_control\<close>.  The random stream goes to the replay call of the
  library and then to \<^verbatim>\<open>transform\<close>.
\<close>

definition augment_spatial_control ::
  "imaging \<Rightarrow> FileItemDTO \<Rightarrow> image \<Rightarrow> transform option \<Rightarrow> rng \<Rightarrow> error + (tensor \<times> rng)" where
  "augment_spatial_control lib self img transform g =
     (case aug_replay_spatial_transforms self of
        None \<Rightarrow> (case transform of None \<Rightarrow> Inl TypeError | Some f \<Rightarrow> Inr (f img g))
      | Some record \<Rightarrow>
          (let colorspace = mode_of lib img;
               img' = Convert ''RGB'' img;
               open_cv_image = ArrayBGR img'
           in case replay_call lib record open_cv_image g of
                (augmented, g1) \<Rightarrow>
                  (let augmented' = FromArray (CvtColorBGR2RGB augmented);
                       augmented'' = Convert colorspace augmented'
                   in Inr (apply_transform transform augmented'' g1))))"

section \<open>Mask companions\<close>

text \<open>
  \<^verbatim>\<open>MaskFileItemDTOMixin.load_mask_image\<close>, in the order of the source.  A failed
  \<^verbatim>\<open>Image.open\<close> is printed and leaves \<^verbatim>\<open>img\<close> unbound.  The result keeps the item
  also when an exception is raised: it shows which fields were assigned before.

  The copy of the alpha channel, \<^verbatim>\<open>np_img[:, :, :3] = np_img[:, :, 3:]\<close>: indexing
  a third axis raises \<^verbatim>\<open>IndexError\<close> on an array of two axes, and the slice from
  channel 3 on broadcasts into the first three channels only when it holds one channel,
  that is for an array of four channels; otherwise the assignment raises
  \<^verbatim>\<open>ValueError\<close>.
\<close>

definition alpha_to_rgb :: "imaging \<Rightarrow> image \<Rightarrow> error + image" where
  "alpha_to_rgb lib img =
     (case array_channels lib img of
        None \<Rightarrow> Inl IndexError
      | Some c \<Rightarrow> if c = 4 then Inr (AlphaToRGB img) else Inl ValueError)"

definition mask_source :: "imaging \<Rightarrow> FileItemDTO \<Rightarrow> string \<Rightarrow> error + image" where
  "mask_source lib self p =
     and_then (if use_alpha_as_mask self then alpha_to_rgb lib (Opened p) else Inr (Opened p))
       (\<lambda>img1.
     (let img2 = Convert ''RGB'' img1
      in Inr (if invert_mask (dataset_config self) then Invert img2 else img2)))"

definition fix_size :: "imaging \<Rightarrow> FileItemDTO \<Rightarrow> image \<Rightarrow> bool" where
  "fix_size lib self img =
     (case size_of lib img of (w, h) \<Rightarrow>
        if w > h \<and> scale_to_width self < scale_to_height self then True
        else if h > w \<and> scale_to_height self < scale_to_width self then True
        else False)"

definition swap_sizes :: "FileItemDTO \<Rightarrow> FileItemDTO" where
  "swap_sizes self =
     self\<lparr>scale_to_width := scale_to_height self, scale_to_height := scale_to_width self,
          crop_width := crop_height self, crop_height := crop_width self,
          crop_x := crop_y self, crop_y := crop_x self\<rparr>"

text \<open>
  The flips, the blur and the conversion to one channel.  The radius is
  \<^verbatim>\<open>int(min_size * random.random() * 0.005)\<close>: the draw is made first, then the two
  products are rounded in turn; \<^verbatim>\<open>0.005\<close> is the double nearest to \<open>5 / 1000\<close>.
\<close>

definition mask_flipped :: "FileItemDTO \<Rightarrow> image \<Rightarrow> image" where
  "mask_flipped self img =
     (let img1 = (if flip_x self then FlipLeftRight img else img)
      in if flip_y self then FlipTopBottom img1 else img1)"

definition blur_radius :: "int \<Rightarrow> real \<Rightarrow> error + int" where
  "blur_radius min_size u =
     and_then (py_mul min_size u) (\<lambda>x.
     and_then (fmul x (rd (5 / 1000))) (\<lambda>y. Inr (py_int y)))"

definition mask_grayscale ::
  "imaging \<Rightarrow> FileItemDTO \<Rightarrow> image \<Rightarrow> rng \<Rightarrow> (error + image) \<times> rng" where
  "mask_grayscale lib self img g =
     (let img2 = mask_flipped self img;
          min_size = min (fst (size_of lib img2)) (snd (size_of lib img2))
      in case random_unit g of (u, g') \<Rightarrow>
           (and_then (blur_radius min_size u) (\<lambda>radius.
              Inr (Convert ''L'' (GaussianBlur radius img2))), g'))"

definition mask_cropped :: "FileItemDTO \<Rightarrow> image \<Rightarrow> image" where
  "mask_cropped self img =
     Crop (crop_x self) (crop_y self) (crop_x self + crop_width self)
          (crop_y self + crop_height self)
       (Resize (scale_to_width self) (scale_to_height self) img)"

definition load_mask_image ::
  "imaging \<Rightarrow> FileItemDTO \<Rightarrow> rng \<Rightarrow> error option \<times> FileItemDTO \<times> rng" where
  "load_mask_image lib self g =
     (case (case mask_path self of
              None \<Rightarrow> None
            | Some p \<Rightarrow> if can_open lib p then Some p else None) of
        None \<Rightarrow> (Some UnboundLocalError, self, g)
      | Some p \<Rightarrow>
          (case mask_source lib self p of
             Inl e \<Rightarrow> (Some e, self, g)
           | Inr img \<Rightarrow>
               (let self1 = (if fix_size lib self img then swap_sizes self else self)
                in case mask_grayscale lib self1 img g of
                     (Inl e, g1) \<Rightarrow> (Some e, self1, g1)
                   | (Inr gray, g1) \<Rightarrow>
                       if cfg_buckets (dataset_config self1) then
                         (let img' = mask_cropped self1 gray;
                              transform = to_tensor
                          in case (if aug_replay_spatial_transforms self1 \<noteq> None
                                   then augment_spatial_control lib self1 img' (Some transform) g1
                                   else Inr (transform img' g1)) of
                               Inl e \<Rightarrow> (Some e, self1, g1)
                             | Inr (t, g2) \<Rightarrow>
                                 (None,
                                  self1\<lparr>mask_tensor :=
                                     Some (ValueMap 0 1 (mask_min_value self1) 1 t)\<rparr>,
                                  g2))
                       else (Some PlainException, self1, g1))))"

section \<open>Properties stated of the model\<close>

text \<open>
  The formula of the specification for the standard path in exact arithmetic: the larger
  of the two per-axis factors, and both sizes rounded up.  \<open>double_enlarged\<close> is the
  same formula with the quotients and the products rounded to doubles, which is what the
  code evaluates.
\<close>

definition spec_max_factor :: "int \<Rightarrow> int \<Rightarrow> int \<Rightarrow> int \<Rightarrow> real" where
  "spec_max_factor w h bw bh = max (of_int bw / of_int w) (of_int bh / of_int h)"

definition spec_enlarged :: "int \<Rightarrow> int \<Rightarrow> int \<Rightarrow> int \<Rightarrow> int \<times> int" where
  "spec_enlarged w h bw bh =
     (\<lceil>of_int w * spec_max_factor w h bw bh\<rceil>, \<lceil>of_int h * spec_max_factor w h bw bh\<rceil>)"

definition double_max_factor :: "int \<Rightarrow> int \<Rightarrow> int \<Rightarrow> int \<Rightarrow> real" where
  "double_max_factor w h bw bh = max (rd (of_int bw / of_int w)) (rd (of_int bh / of_int h))"

definition double_enlarged :: "int \<Rightarrow> int \<Rightarrow> int \<Rightarrow> int \<Rightarrow> int \<times> int" where
  "double_enlarged w h bw bh =
     (\<lceil>rd (of_int w * double_max_factor w h bw bh)\<rceil>,
      \<lceil>rd (of_int h * double_max_factor w h bw bh)\<rceil>)"

text \<open>
  The invariant of the item record and the inputs it is proved for: sizes between 1 and
  \<open>2\<^sup>2\<^sup>4\<close> pixels, and a region of interest that starts inside the scaled image and has
  a positive scaled width and height.
\<close>

definition consistent_geometry :: "FileItemDTO \<Rightarrow> bool" where
  "consistent_geometry self =
     (scale_to_width self \<ge> crop_x self + crop_width self
      \<and> scale_to_height self \<ge> crop_y self + crop_height self)"

definition in_range :: "int \<Rightarrow> bool" where
  "in_range n = (0 < n \<and> n \<le> 2 ^ 24)"

definition well_formed_item :: "FileItemDTO \<Rightarrow> bool" where
  "well_formed_item self =
     (case scaled self (width self) of Inl e \<Rightarrow> False | Inr iw \<Rightarrow>
      case scaled self (height self) of Inl e \<Rightarrow> False | Inr ih \<Rightarrow>
        in_range iw \<and> in_range ih
      \<and> (has_point_of_interest self \<longrightarrow>
            (case scaled self (poi_x self) of Inl e \<Rightarrow> False | Inr px \<Rightarrow> px < iw)
          \<and> (case scaled self (poi_y self) of Inl e \<Rightarrow> False | Inr py \<Rightarrow> py < ih)
          \<and> (case scaled self (poi_width self) of Inl e \<Rightarrow> False | Inr pw \<Rightarrow> 0 < pw)
          \<and> (case scaled self (poi_height self) of Inl e \<Rightarrow> False | Inr ph \<Rightarrow> 0 < ph)))"

definition buckets_in_range :: "toolkit_buckets \<Rightarrow> bool" where
  "buckets_in_range lib =
     (\<forall>w h r d bw bh. get_bucket_for_image_size lib w h r d = Some (bw, bh) \<longrightarrow>
        in_range bw \<and> in_range bh)"

text \<open>
  Containment of the region of interest in the final crop, both measured in the scaled
  image.
\<close>

definition crop_contains_poi :: "FileItemDTO \<Rightarrow> bool" where
  "crop_contains_poi self =
     (let fx = of_int (scale_to_width self) / of_int (width self) :: real;
          fy = of_int (scale_to_height self) / of_int (height self) :: real
      in of_int (crop_x self) \<le> of_int (poi_x self) * fx
       \<and> of_int (poi_x self + poi_width self) * fx \<le> of_int (crop_x self + crop_width self)
       \<and> of_int (crop_y self) \<le> of_int (poi_y self) * fy
       \<and> of_int (poi_y self + poi_height self) * fy \<le> of_int (crop_y self + crop_height self))"

text \<open>
  Every bucket is stored under the key printed from its own width and height, and every
  index it lists is an item of that crop size.
\<close>

definition bucket_inv :: "FileItemDTO list \<Rightarrow> (string \<times> Bucket) list \<Rightarrow> bool" where
  "bucket_inv items bs =
     (\<forall>key b. map_of bs key = Some b \<longrightarrow>
        key = str_int (bucket_width b) @ ''x'' @ str_int (bucket_height b)
      \<and> (\<forall>i \<in> set (file_list_idx b).
            i < length items
          \<and> crop_width (items ! i) = bucket_width b
          \<and> crop_height (items ! i) = bucket_height b))"

text \<open>The tuple of fields that the cache key is said to depend on.\<close>

definition latent_tuple ::
  "FileItemDTO \<Rightarrow> string \<times> int \<times> int \<times> int \<times> int \<times> int \<times> int \<times> string \<times> int \<times> bool \<times> bool" where
  "latent_tuple self =
     (basename (path self), scale_to_width self, scale_to_height self, crop_x self, crop_y self,
      crop_width self, crop_height self, latent_space_version self, latent_version self,
      flip_x self, flip_y self)"

text \<open>The six geometry fields of an item.\<close>

definition geometry :: "FileItemDTO \<Rightarrow> int \<times> int \<times> int \<times> int \<times> int \<times> int" where
  "geometry self = (scale_to_width self, scale_to_height self, crop_width self, crop_height self,
     crop_x self, crop_y self)"

text \<open>
  The replay record as the specification describes it: of the captured steps, those that
  were executed and have a spatial class name.
\<close>

definition executed_spatial_steps :: "replay \<Rightarrow> replay_step list" where
  "executed_spatial_steps captured =
     filter (\<lambda>s. applied s \<and> class_name s \<in> {''Rotate'', ''Flip'', ''HorizontalFlip'',
        ''VerticalFlip'', ''Resize'', ''Crop'', ''RandomCrop'', ''ElasticTransform'',
        ''GridDistortion'', ''OpticalDistortion''}) (transforms captured)"

text \<open>
  Whether, in the history of an image, a conversion to the single-channel mode
  \<^verbatim>\<open>'L'\<close> lies before a replay.
\<close>

primrec converted_to_L :: "image \<Rightarrow> bool" where
  "converted_to_L (Opened p) = False"
| "converted_to_L (AlphaToRGB i) = converted_to_L i"
| "converted_to_L (Convert m i) = (m = ''L'' \<or> converted_to_L i)"
| "converted_to_L (Invert i) = converted_to_L i"
| "converted_to_L (FlipLeftRight i) = converted_to_L i"
| "converted_to_L (FlipTopBottom i) = converted_to_L i"
| "converted_to_L (GaussianBlur r i) = converted_to_L i"
| "converted_to_L (Resize w h i) = converted_to_L i"
| "converted_to_L (Crop a b c d i) = converted_to_L i"
| "converted_to_L (ArrayBGR i) = converted_to_L i"
| "converted_to_L (Replay r i) = converted_to_L i"
| "converted_to_L (CvtColorBGR2RGB i) = converted_to_L i"
| "converted_to_L (FromArray i) = converted_to_L i"
| "converted_to_L (Composed p r i) = converted_to_L i"

primrec L_before_replay :: "image \<Rightarrow> bool" where
  "L_before_replay (Opened p) = False"
| "L_before_replay (AlphaToRGB i) = L_before_replay i"
| "L_before_replay (Convert m i) = L_before_replay i"
| "L_before_replay (Invert i) = L_before_replay i"
| "L_before_replay (FlipLeftRight i) = L_before_replay i"
| "L_before_replay (FlipTopBottom i) = L_before_replay i"
| "L_before_replay (GaussianBlur r i) = L_before_replay i"
| "L_before_replay (Resize w h i) = L_before_replay i"
| "L_before_replay (Crop a b c d i) = L_before_replay i"
| "L_before_replay (ArrayBGR i) = L_before_replay i"
| "L_before_replay (Replay r i) = (converted_to_L i \<or> L_before_replay i)"
| "L_before_replay (CvtColorBGR2RGB i) = L_before_replay i"
| "L_before_replay (FromArray i) = L_before_replay i"
| "L_before_replay (Composed p r i) = L_before_replay i"

primrec tensor_L_before_replay :: "tensor \<Rightarrow> bool" where
  "tensor_L_before_replay (ToTensor i) = L_before_replay i"
| "tensor_L_before_replay (Transform n i) = L_before_replay i"
| "tensor_L_before_replay (ValueMap a b c d t) = tensor_L_before_replay t"

section \<open>Concrete inputs\<close>

text \<open>Values on which the operations are evaluated below.\<close>

definition example_config :: DatasetConfig where
  "example_config = \<lparr>resolution = 512, bucket_tolerance = 64, scale = 1, random_crop = False,
     poi = None, cfg_buckets = True, invert_mask = False,
     augmentations = None, shuffle_augmentations = False\<rparr>"

definition example_item :: FileItemDTO where
  "example_item = \<lparr>path = ''/data/cat.png'', width = 1600, height = 1200,
     dataset_config = example_config,
     scale_to_width = 0, scale_to_height = 0, crop_x = 0, crop_y = 0,
     crop_width = 0, crop_height = 0, flip_x = False, flip_y = False,
     has_point_of_interest = False, poi_x = 0, poi_y = 0, poi_width = 0, poi_height = 0,
     latent_space_version = ''sd1'', latent_version = 1, latent_path = None,
     aug_transform = None, has_augmentations = False, aug_replay_spatial_transforms = None,
     unaugmented_tensor = None, mask_path = None, use_alpha_as_mask = False,
     mask_min_value = 0, mask_tensor = None\<rparr>"

definition landscape_lib :: toolkit_buckets where
  "landscape_lib = \<lparr>get_resolution = (\<lambda>w h. None),
     get_bucket_for_image_size = (\<lambda>w h res d. Some (576, 448))\<rparr>"

text \<open>
  An image of 2000 by 1500 pixels, for which the rounded product exceeds the bucket
  height, and a configuration with random crops.
\<close>

definition wide_item :: FileItemDTO where
  "wide_item = example_item\<lparr>path := ''/data/wide.png'', width := 2000, height := 1500\<rparr>"

definition random_config :: DatasetConfig where
  "random_config = example_config\<lparr>random_crop := True\<rparr>"

text \<open>
  \<open>side_lib\<close> is one instance of the absent helpers: the resolution of a window is
  its shorter side, the bucket of a square image is the square of the target resolution.
  \<open>area_lib\<close> is another: the resolution of a window is the side of the square with
  as many pixels, and the call raises for a negative number of pixels.
\<close>

definition roi_config :: DatasetConfig where
  "roi_config = example_config\<lparr>poi := Some ''subject''\<rparr>"

definition roi_item :: FileItemDTO where
  "roi_item = example_item\<lparr>path := ''/data/dog.png'', width := 2048, height := 2048,
     dataset_config := roi_config, has_point_of_interest := True,
     poi_x := 1024, poi_y := 1024, poi_width := 512, poi_height := 512\<rparr>"

definition corner_item :: FileItemDTO where
  "corner_item = roi_item\<lparr>poi_x := 0, poi_y := 0, poi_width := 100, poi_height := 100\<rparr>"

definition side_lib :: toolkit_buckets where
  "side_lib = \<lparr>get_resolution = (\<lambda>w h. Some (min w h)),
     get_bucket_for_image_size = (\<lambda>w h res d.
        if res \<le> 0 \<or> 2 ^ 24 < res then None
        else Some (if h < w then (576, 448) else if w < h then (448, 576) else (res, res)))\<rparr>"

fun isqrt :: "nat \<Rightarrow> nat" where
  "isqrt n =
     (if n < 4 then (if n = 0 then 0 else 1)
      else (let r = 2 * isqrt (n div 4) in if (r + 1) * (r + 1) \<le> n then r + 1 else r))"

declare isqrt.simps [simp del]

definition area_lib :: toolkit_buckets where
  "area_lib = \<lparr>get_resolution = (\<lambda>w h.
        if w * h < 0 then None else Some (int (isqrt (nat (w * h))))),
     get_bucket_for_image_size = get_bucket_for_image_size side_lib\<rparr>"

text \<open>
  An item whose region of interest, as the caption file gives it, lies outside the
  image.
\<close>

definition far_item :: FileItemDTO where
  "far_item = roi_item\<lparr>path := ''/data/far.png'',
     poi_x := 4000, poi_y := 3000, poi_width := 100, poi_height := 100\<rparr>"

definition far_item_done :: FileItemDTO where
  "far_item_done = far_item\<lparr>scale_to_width := - 470, scale_to_height := - 470,
     crop_width := 448, crop_height := 576, crop_x := - 918, crop_y := - 688\<rparr>"

definition far_dataset :: AiToolkitDataset where
  "far_dataset = \<lparr>file_list = [far_item], ds_config = roi_config,
     epoch_num = 0, batch_size = 2, buckets = [], batch_indices = []\<rparr>"

definition example_dataset :: AiToolkitDataset where
  "example_dataset = \<lparr>file_list = [example_item, roi_item], ds_config = roi_config,
     epoch_num = 0, batch_size = 2, buckets = [], batch_indices = []\<rparr>"

definition example_item_done :: FileItemDTO where
  "example_item_done = example_item\<lparr>scale_to_width := 598, scale_to_height := 448,
            crop_height := 448, crop_width := 576, crop_x := 11, crop_y := 0\<rparr>"

definition roi_item_done :: FileItemDTO where
  "roi_item_done = roi_item\<lparr>scale_to_width := 2048, scale_to_height := 2048,
                  crop_width := 512, crop_height := 512, crop_x := 0, crop_y := 0\<rparr>"

text \<open>Two images of one size, which share a bucket.\<close>

definition twin_item :: FileItemDTO where
  "twin_item = example_item\<lparr>path := ''/data/cat2.png''\<rparr>"

definition twin_item_done :: FileItemDTO where
  "twin_item_done = twin_item\<lparr>scale_to_width := 598, scale_to_height := 448,
            crop_height := 448, crop_width := 576, crop_x := 11, crop_y := 0\<rparr>"

definition twin_dataset :: AiToolkitDataset where
  "twin_dataset = \<lparr>file_list = [example_item, twin_item], ds_config = roi_config,
     epoch_num = 0, batch_size = 2, buckets = [], batch_indices = []\<rparr>"

text \<open>
  A stand-in for the standard library: the JSON text of a flat dictionary whose strings
  need no escaping, and the identity in place of the digest, so that the text that is
  hashed shows in the path.
\<close>

definition render_value :: "jvalue \<Rightarrow> string" where
  "render_value v = (case v of
       JStr s \<Rightarrow> [CHR 0x22] @ s @ [CHR 0x22]
     | JInt i \<Rightarrow> str_int i
     | JBool b \<Rightarrow> (if b then ''true'' else ''false''))"

fun render_items :: "(string \<times> jvalue) list \<Rightarrow> string" where
  "render_items [] = []"
| "render_items [(k, v)] = [CHR 0x22] @ k @ [CHR 0x22] @ '': '' @ render_value v"
| "render_items ((k, v) # kvs) =
     [CHR 0x22] @ k @ [CHR 0x22] @ '': '' @ render_value v @ '', '' @ render_items kvs"

definition plain_stdlib :: stdlib where
  "plain_stdlib = \<lparr>json_dumps = (\<lambda>d. ''{'' @ render_items d @ ''}''), md5_b64 = (\<lambda>s. s)\<rparr>"

definition moved_item :: FileItemDTO where
  "moved_item = example_item_done\<lparr>path := ''/other/cat.png''\<rparr>"

text \<open>
  An instance of the imaging libraries: one mask file that opens, every image 1600 by
  1200 (or 1200 by 1600 in the portrait variant) with three channels (four in the
  variant with an alpha channel), the mode that PIL would report, a pipeline call that
  captures five steps, three of them spatial and one of these not executed, and a replay
  that does not use the random stream.  In the variant \<open>restless_imaging\<close> the replay
  call does use it.
\<close>

primrec pil_mode :: "image \<Rightarrow> string" where
  "pil_mode (Opened p) = ''RGB''"
| "pil_mode (AlphaToRGB i) = ''RGB''"
| "pil_mode (Convert m i) = m"
| "pil_mode (Invert i) = pil_mode i"
| "pil_mode (FlipLeftRight i) = pil_mode i"
| "pil_mode (FlipTopBottom i) = pil_mode i"
| "pil_mode (GaussianBlur r i) = pil_mode i"
| "pil_mode (Resize w h i) = pil_mode i"
| "pil_mode (Crop a b c d i) = pil_mode i"
| "pil_mode (ArrayBGR i) = pil_mode i"
| "pil_mode (Replay r i) = pil_mode i"
| "pil_mode (CvtColorBGR2RGB i) = pil_mode i"
| "pil_mode (FromArray i) = ''RGB''"
| "pil_mode (Composed p r i) = pil_mode i"

definition flip_step :: replay_step where
  "flip_step = \<lparr>class_fullname = ''HorizontalFlip'', applied = True, realized = []\<rparr>"

definition skipped_step :: replay_step where
  "skipped_step = \<lparr>class_fullname = ''VerticalFlip'', applied = False, realized = []\<rparr>"

definition rotate_step :: replay_step where
  "rotate_step = \<lparr>class_fullname = ''albumentations.augmentations.geometric.rotate.Rotate'',
     applied = True, realized = [(''angle'', PNum 12)]\<rparr>"

definition jitter_step :: replay_step where
  "jitter_step = \<lparr>class_fullname = ''ColorJitter'', applied = True,
     realized = [(''brightness'', PNum (11 / 10))]\<rparr>"

definition noise_step :: replay_step where
  "noise_step = \<lparr>class_fullname = ''GaussNoise'', applied = False, realized = []\<rparr>"

definition demo_capture :: replay where
  "demo_capture = \<lparr>replay_class = ''ReplayCompose'',
     transforms = [jitter_step, flip_step, skipped_step, noise_step, rotate_step]\<rparr>"

definition demo_kept :: replay where
  "demo_kept = \<lparr>replay_class = ''ReplayCompose'',
     transforms = [flip_step, skipped_step, rotate_step]\<rparr>"

definition demo_pipeline :: "Augments list" where
  "demo_pipeline = [\<lparr>method_name = ''ColorJitter'', params = []\<rparr>,
     \<lparr>method_name = ''HorizontalFlip'', params = []\<rparr>,
     \<lparr>method_name = ''VerticalFlip'', params = []\<rparr>,
     \<lparr>method_name = ''GaussNoise'', params = []\<rparr>,
     \<lparr>method_name = ''Rotate'', params = [(''limit'', PInt 15)]\<rparr>]"

definition demo_imaging :: imaging where
  "demo_imaging = \<lparr>can_open = (\<lambda>p. p = ''/masks/cat.png''),
     size_of = (\<lambda>img. (1600, 1200)),
     mode_of = pil_mode,
     array_channels = (\<lambda>img. Some 3),
     has_method = (\<lambda>n. True),
     cv2_attr = (\<lambda>n. None),
     compose_call = (\<lambda>pipeline img g. (Composed pipeline demo_capture img, demo_capture, snd (draw g))),
     replay_call = (\<lambda>r img g. (Replay r img, g))\<rparr>"

definition portrait_imaging :: imaging where
  "portrait_imaging = demo_imaging\<lparr>size_of := (\<lambda>img. (1200, 1600))\<rparr>"

definition alpha_imaging :: imaging where
  "alpha_imaging = portrait_imaging\<lparr>array_channels := (\<lambda>img. Some 4)\<rparr>"

definition restless_imaging :: imaging where
  "restless_imaging = demo_imaging\<lparr>replay_call := (\<lambda>r img g.
     case draw g of (n, g') \<Rightarrow> (if even n then Replay r img else FlipLeftRight (Replay r img), g'))\<rparr>"

text \<open>
  A transform that draws: with probability one half it inverts the image before the
  tensor is made, like \<^verbatim>\<open>transforms.RandomInvert\<close> in a \<^verbatim>\<open>transforms.Compose\<close>.
\<close>

definition coin_transform :: transform where
  "coin_transform img g =
     (case draw g of (n, g') \<Rightarrow> (if even n then ToTensor img else ToTensor (Invert img), g'))"

definition aug_item :: FileItemDTO where
  "aug_item = example_item_done\<lparr>aug_transform := Some demo_pipeline, has_augmentations := True\<rparr>"

definition mask_item :: FileItemDTO where
  "mask_item = example_item_done\<lparr>mask_path := Some ''/masks/cat.png'',
     aug_replay_spatial_transforms := Some demo_kept\<rparr>"

definition alpha_item :: FileItemDTO where
  "alpha_item = mask_item\<lparr>use_alpha_as_mask := True\<rparr>"

text \<open>
  The draw for which \<^verbatim>\<open>random.random()\<close> returns \<^verbatim>\<open>0.6666666666666666\<close>, and the
  mask it leads to.
\<close>

definition two_thirds_draw :: nat where
  "two_thirds_draw = 6004799503160661"

definition mask_demo_cropped :: image where
  "mask_demo_cropped = Crop 11 0 587 448 (Resize 598 448
     (Convert ''L'' (GaussianBlur 4 (Convert ''RGB'' (Opened ''/masks/cat.png'')))))"

definition mask_demo_tensor :: tensor where
  "mask_demo_tensor = ValueMap 0 1 0 1 (ToTensor (Convert ''L'' (FromArray (CvtColorBGR2RGB
     (Replay demo_kept (ArrayBGR (Convert ''RGB'' mask_demo_cropped)))))))"

definition cached_item :: FileItemDTO where
  "cached_item = example_item_done\<lparr>path := ''/data//cat.png'', width := 800,
     latent_path := Some ''/stale.safetensors''\<rparr>"

section \<open>Facts about the Python primitives\<close>

subsection \<open>Rounding to a double\<close>

lemma pow2_pos: "0 < (2::real) powi e"
  by (simp add: zero_less_power_int)

lemma pow2_half: "(2::real) powi (e - 1) = 2 powi e / 2"
  by (simp add: power_int_diff)

lemma pow2_double: "(2::real) powi (e + 1) = 2 powi e * 2"
  by (simp add: power_int_add)

lemma pow2_mono: "a \<le> b \<Longrightarrow> (2::real) powi a \<le> 2 powi b"
  by (rule power_int_increasing) simp_all

lemma ilog2_bounds:
  "0 < x \<Longrightarrow> 2 powi ilog2 x \<le> x \<and> x < 2 powi (ilog2 x + 1)"
proof (induction x rule: ilog2.induct)
  case (1 x)
  consider "x < 1" | "2 \<le> x" | "1 \<le> x" "x < 2" by linarith
  then show ?case
  proof cases
    case 1
    with "1.prems" have s: "ilog2 x = ilog2 (2 * x) - 1"
      by (subst ilog2.simps) simp
    from "1.IH"(1) "1.prems" 1
    have "2 powi ilog2 (2 * x) \<le> 2 * x \<and> 2 * x < 2 powi (ilog2 (2 * x) + 1)" by simp
    then show ?thesis
      unfolding s by (simp add: pow2_half pow2_double)
  next
    case 2
    with "1.prems" have s: "ilog2 x = ilog2 (x / 2) + 1"
      by (subst ilog2.simps) simp
    from "1.IH"(2) "1.prems" 2
    have "2 powi ilog2 (x / 2) \<le> x / 2 \<and> x / 2 < 2 powi (ilog2 (x / 2) + 1)" by simp
    moreover have "(2::real) powi (ilog2 (x / 2) + 1 + 1) = 2 powi (ilog2 (x / 2) + 1) * 2"
      by (rule pow2_double)
    moreover have "(2::real) powi (ilog2 (x / 2) + 1) = 2 powi ilog2 (x / 2) * 2"
      by (rule pow2_double)
    ultimately show ?thesis
      unfolding s by linarith
  next
    case 3
    then have "ilog2 x = 0" by (subst ilog2.simps) simp
    with 3 show ?thesis by simp
  qed
qed

lemma ilog2_unique:
  assumes "2 powi k \<le> x" "x < 2 powi (k + 1)"
  shows "ilog2 x = k"
proof -
  from assms(1) pow2_pos [of k] have x: "0 < x" by linarith
  note b = ilog2_bounds [OF x]
  have "\<not> k + 1 \<le> ilog2 x"
  proof
    assume "k + 1 \<le> ilog2 x"
    then have "(2::real) powi (k + 1) \<le> 2 powi ilog2 x" by (rule pow2_mono)
    with b assms(2) show False by linarith
  qed
  moreover have "\<not> ilog2 x + 1 \<le> k"
  proof
    assume "ilog2 x + 1 \<le> k"
    then have "(2::real) powi (ilog2 x + 1) \<le> 2 powi k" by (rule pow2_mono)
    with b assms(1) show False by linarith
  qed
  ultimately show ?thesis by linarith
qed

lemma round_even_err: "\<bar>of_int (round_even y) - y\<bar> \<le> 1 / 2"
proof -
  have "of_int \<lfloor>y\<rfloor> \<le> y" "y < of_int \<lfloor>y\<rfloor> + 1" by linarith+
  then show ?thesis
    by (auto simp: round_even_def Let_def)
qed

lemma round_even_int: "round_even (of_int n) = n"
  by (simp add: round_even_def)

lemma rd_zero: "rd 0 = 0"
  by (simp add: rd_def round_even_def)

text \<open>A number of at most 53 significant bits is a double, and is not changed.\<close>

lemma rd_exact:
  assumes m: "\<bar>m\<bar> < 2 ^ 53" and j: "- 1074 \<le> j"
  shows "rd (of_int m * 2 powi j) = of_int m * 2 powi j"
proof (cases "m = 0")
  case True
  then show ?thesis by (simp add: rd_zero)
next
  case False
  define x :: real where "x = of_int m * 2 powi j"
  define e where "e = ulp_exp x"
  from False have "1 \<le> \<bar>m\<bar>" by linarith
  then have "1 \<le> \<bar>of_int m :: real\<bar>" by (metis of_int_1_le_iff of_int_abs)
  then have lo: "2 powi j \<le> \<bar>x\<bar>"
    using pow2_pos [of j] by (simp add: x_def abs_mult)
  from m have "\<bar>of_int m :: real\<bar> < 2 ^ 53" by (metis of_int_abs of_int_less_numeral_power_cancel_iff)
  then have "\<bar>x\<bar> < 2 ^ 53 * 2 powi j"
    using pow2_pos [of j] by (simp add: x_def abs_mult)
  also have "\<dots> = 2 powi (j + 53)" by (simp add: power_int_add)
  finally have hi: "\<bar>x\<bar> < 2 powi (j + 53)" .
  from lo pow2_pos [of j] have "0 < \<bar>x\<bar>" by linarith
  from ilog2_bounds [OF this] hi have "2 powi ilog2 \<bar>x\<bar> < (2::real) powi (j + 53)" by linarith
  then have "ilog2 \<bar>x\<bar> < j + 53"
    by (metis not_le pow2_mono)
  with j have e: "e \<le> j" by (simp add: e_def ulp_exp_def)
  then have "(2::real) powi j = 2 powi (j - e) * 2 powi e"
    by (simp add: power_int_add [symmetric])
  moreover from e have "(2::real) powi (j - e) = of_int (2 ^ nat (j - e))"
    by (simp add: power_int_def)
  ultimately have split: "x = of_int (m * 2 ^ nat (j - e)) * 2 powi e"
    by (simp add: x_def)
  then have "x / 2 powi e = of_int (m * 2 ^ nat (j - e))"
    using pow2_pos [of e] by simp
  then have "round_even (x / 2 powi e) = m * 2 ^ nat (j - e)"
    by (simp only: round_even_int)
  then have "rd x = of_int (m * 2 ^ nat (j - e)) * 2 powi e"
    by (simp add: rd_def e_def)
  then have "rd x = x" by (rule trans [OF _ split [symmetric]])
  then show ?thesis by (simp only: x_def)
qed

lemma rd_of_int: "\<bar>n\<bar> < 2 ^ 53 \<Longrightarrow> rd (of_int n) = of_int n"
  using rd_exact [of n 0] by simp

lemma rd_one: "rd 1 = 1"
  using rd_of_int [of 1] by simp

text \<open>
  In the normal range the rounding error is at most half a unit in the last place,
  which is at most \<open>2\<^sup>-\<^sup>5\<^sup>3\<close> of the number.
\<close>

lemma ulp_exp_normal:
  assumes "2 powi k \<le> \<bar>x\<bar>" "\<bar>x\<bar> < 2 powi (k + 1)" "- 1022 \<le> k"
  shows "ulp_exp x = k - 52"
  using assms(3) ilog2_unique [OF assms(1,2)] by (simp add: ulp_exp_def)

lemma rd_eval:
  assumes "2 powi k \<le> \<bar>x\<bar>" "\<bar>x\<bar> < 2 powi (k + 1)" "- 1022 \<le> k"
  shows "rd x = of_int (round_even (x / 2 powi (k - 52))) * 2 powi (k - 52)"
  by (simp add: rd_def ulp_exp_normal [OF assms])

lemma rd_abs_err:
  assumes "2 powi (- 1022) \<le> \<bar>x\<bar>"
  shows "\<bar>rd x - x\<bar> \<le> \<bar>x\<bar> / 2 ^ 53"
proof -
  define k where "k = ilog2 \<bar>x\<bar>"
  from assms pow2_pos [of "- 1022"] have "0 < \<bar>x\<bar>" by linarith
  from ilog2_bounds [OF this] have b: "2 powi k \<le> \<bar>x\<bar>" "\<bar>x\<bar> < 2 powi (k + 1)"
    by (simp_all add: k_def)
  from assms b(2) have "(2::real) powi (- 1022) < 2 powi (k + 1)" by linarith
  then have "- 1022 < k + 1" by (metis not_le pow2_mono)
  then have e: "ulp_exp x = k - 52" by (simp add: ulp_exp_def k_def)
  define y where "y = x / 2 powi (k - 52)"
  have x: "x = y * 2 powi (k - 52)"
    using pow2_pos [of "k - 52"] by (simp add: y_def)
  have "rd x - x = (of_int (round_even y) - y) * 2 powi (k - 52)"
    by (simp add: rd_def e y_def [symmetric] x [symmetric] algebra_simps)
  then have "\<bar>rd x - x\<bar> = \<bar>of_int (round_even y) - y\<bar> * 2 powi (k - 52)"
    using pow2_pos [of "k - 52"] by (simp add: abs_mult)
  also have "\<dots> \<le> 1 / 2 * 2 powi (k - 52)"
    using round_even_err [of y] pow2_pos [of "k - 52"] by (intro mult_right_mono) simp_all
  also have "\<dots> = 2 powi k / 2 ^ 53"
    by (simp add: power_int_diff)
  also from b(1) have "\<dots> \<le> \<bar>x\<bar> / 2 ^ 53"
    by (simp add: divide_right_mono)
  finally show ?thesis .
qed

text \<open>The same bound for a number that is zero or at least \<open>2\<^sup>-\<^sup>2\<^sup>5\<close>, in the form used below.\<close>

lemma rd_near:
  assumes "x = 0 \<or> 1 / 2 ^ 25 \<le> x"
  shows "x - x / 2 ^ 53 \<le> rd x" "rd x \<le> x + x / 2 ^ 53"
proof -
  have "x - x / 2 ^ 53 \<le> rd x \<and> rd x \<le> x + x / 2 ^ 53"
  proof (cases "x = 0")
    case True
    then show ?thesis by (simp add: rd_zero)
  next
    case False
    with assms have x: "1 / 2 ^ 25 \<le> x" by simp
    have "(0::real) < 1 / 2 ^ 25" by simp
    with x have pos: "0 < x" by linarith
    have "(2::real) powi (- 1022) \<le> 2 powi (- 25)" by (rule pow2_mono) simp
    also have "\<dots> = 1 / 2 ^ 25" by (simp add: power_int_minus_divide)
    finally have "2 powi (- 1022) \<le> \<bar>x\<bar>" using x by linarith
    from rd_abs_err [OF this] pos have "\<bar>rd x - x\<bar> \<le> x / 2 ^ 53" by simp
    then show ?thesis by (simp only: abs_le_iff) linarith
  qed
  then show "x - x / 2 ^ 53 \<le> rd x" "rd x \<le> x + x / 2 ^ 53" by simp_all
qed

lemma to_double_small:
  assumes "\<bar>rd x\<bar> < 2 ^ 1024"
  shows "to_double x = Inr (rd x)"
  using assms by (simp add: to_double_def)

lemma to_double_moderate:
  assumes "0 \<le> x" "x \<le> 2 ^ 60" "x = 0 \<or> 1 / 2 ^ 25 \<le> x"
  shows "to_double x = Inr (rd x)"
proof -
  from assms(1) have "0 \<le> x / 2 ^ 53" by simp
  moreover from assms(1,2) have "x / 2 ^ 53 \<le> x" by (simp add: field_simps)
  ultimately have "0 \<le> rd x" "rd x \<le> 2 * 2 ^ 60"
    using rd_near [OF assms(3)] assms(2) by linarith+
  moreover have "(2::real) * 2 ^ 60 < 2 ^ 1024" by simp
  ultimately have "\<bar>rd x\<bar> < 2 ^ 1024" by linarith
  then show ?thesis by (rule to_double_small)
qed

subsection \<open>The operations on numbers\<close>

lemma py_int_nonneg: "0 \<le> q \<Longrightarrow> py_int q = \<lfloor>q\<rfloor>"
  by (simp add: py_int_def)

lemma py_int_of_int: "py_int (of_int n) = n"
  by (simp add: py_int_def)

lemma py_int_half: "0 \<le> s \<Longrightarrow> py_int (of_int s / 2) = s div 2"
proof -
  assume s: "0 \<le> s"
  have "\<lfloor>(of_int s :: real) / of_int 2\<rfloor> = s div 2"
    by (rule floor_divide_of_int_eq)
  with s show ?thesis by (simp add: py_int_def)
qed

lemma small_double:
  assumes "\<bar>x\<bar> < 2 ^ 53" "rd x = x"
  shows "to_double x = Inr x"
proof -
  have "(2::real) ^ 53 < 2 ^ 1024" by simp
  with assms(1) have "\<bar>x\<bar> < 2 ^ 1024" by linarith
  with assms(2) show ?thesis by (simp add: to_double_def)
qed

lemma py_float_exact:
  assumes "\<bar>n\<bar> < 2 ^ 53"
  shows "py_float n = Inr (of_int n)"
proof -
  from assms have "\<bar>of_int n :: real\<bar> < 2 ^ 53"
    by (metis of_int_abs of_int_less_numeral_power_cancel_iff)
  then show ?thesis
    unfolding py_float_def using rd_of_int [OF assms] by (rule small_double)
qed

lemma py_mul_exact:
  assumes "\<bar>n\<bar> < 2 ^ 53"
  shows "py_mul n x = to_double (of_int n * x)"
  by (simp add: py_mul_def py_float_exact [OF assms] and_then_def fmul_def)

lemma py_mul_one:
  assumes "\<bar>n\<bar> < 2 ^ 53"
  shows "py_mul n 1 = Inr (of_int n)"
  using py_float_exact [OF assms] by (simp add: py_mul_exact [OF assms] py_float_def)

lemma py_truediv_half:
  assumes "\<bar>n\<bar> < 2 ^ 53"
  shows "py_truediv n 2 = Inr (of_int n / 2)"
proof -
  have e: "(of_int n :: real) / 2 = of_int n * 2 powi (- 1)"
    by (simp add: power_int_minus_divide)
  from assms have "\<bar>of_int n :: real\<bar> < 2 ^ 53"
    by (metis of_int_abs of_int_less_numeral_power_cancel_iff)
  then have "\<bar>(of_int n :: real) / 2\<bar> < 2 ^ 53" by simp
  moreover have "rd (of_int n / 2) = of_int n / 2"
    unfolding e by (rule rd_exact [OF assms]) simp
  ultimately have "to_double (of_int n / 2) = Inr (of_int n / 2)"
    by (rule small_double)
  then show ?thesis by (simp add: py_truediv_def)
qed

lemma py_truediv_self:
  assumes "n \<noteq> 0"
  shows "py_truediv n n = Inr 1"
proof -
  have "to_double 1 = Inr 1"
    by (rule small_double) (simp_all add: rd_one)
  with assms show ?thesis by (simp add: py_truediv_def)
qed

lemma scaled_unit:
  assumes "scale (dataset_config self) = 1" "\<bar>v\<bar> < 2 ^ 53"
  shows "scaled self v = Inr v"
  by (simp add: scaled_def assms(1) rd_one py_mul_one [OF assms(2)] and_then_def py_int_of_int)

text \<open>Sizes in range: the quotient of two of them and its double.\<close>

lemma pow_consts:
  "(2::real) ^ 24 = 16777216" "(2::real) ^ 25 = 33554432" "(2::real) ^ 53 = 9007199254740992"
  "(2::real) ^ 49 = 562949953421312" "(2::real) ^ 60 = 1152921504606846976"
  by simp_all

lemma in_range_real:
  assumes "in_range n"
  shows "\<bar>n\<bar> < 2 ^ 53" "(1::real) \<le> of_int n" "(of_int n :: real) \<le> 2 ^ 24"
proof -
  from assms have n: "0 < n" "n \<le> 2 ^ 24" by (simp_all add: in_range_def)
  then show "\<bar>n\<bar> < 2 ^ 53" by simp
  from n(1) have "1 \<le> n" by simp
  then show "(1::real) \<le> of_int n" by (simp only: of_int_1_le_iff)
  from n(2) show "(of_int n :: real) \<le> 2 ^ 24"
    by (metis of_int_le_numeral_power_cancel_iff)
qed

lemma quotient_in_range:
  assumes a: "in_range a" and b: "in_range b"
  shows "1 / 2 ^ 24 \<le> (of_int a / of_int b :: real)" "(of_int a / of_int b :: real) \<le> 2 ^ 24"
proof -
  note ra = in_range_real [OF a] and rb = in_range_real [OF b]
  from rb have b0: "(0::real) < of_int b" by linarith
  have "(1::real) / 2 ^ 24 \<le> 1 / of_int b"
    using rb(2,3) by (intro divide_left_mono) simp_all
  also have "\<dots> \<le> of_int a / of_int b"
    using ra(2) b0 by (intro divide_right_mono) simp_all
  finally show "1 / 2 ^ 24 \<le> (of_int a / of_int b :: real)" .
  have "(of_int a / of_int b :: real) \<le> of_int a / 1"
    using ra(2) rb(2) by (intro divide_left_mono) simp_all
  with ra(3) show "(of_int a / of_int b :: real) \<le> 2 ^ 24" by simp
qed

lemma truediv_in_range:
  assumes a: "in_range a" and b: "in_range b"
  shows "py_truediv a b = Inr (rd (of_int a / of_int b))"
    and "of_int a / of_int b - of_int a / of_int b / 2 ^ 53 \<le> rd (of_int a / of_int b)"
    and "rd (of_int a / of_int b) \<le> of_int a / of_int b + of_int a / of_int b / 2 ^ 53"
proof -
  define q :: real where "q = of_int a / of_int b"
  note q = quotient_in_range [OF a b, folded q_def]
  have "(1::real) / 2 ^ 25 \<le> 1 / 2 ^ 24" by simp
  with q(1) have lo: "q = 0 \<or> 1 / 2 ^ 25 \<le> q" by linarith
  have "(0::real) \<le> 1 / 2 ^ 24" by simp
  with q(1) have q0: "0 \<le> q" by linarith
  have "(2::real) ^ 24 \<le> 2 ^ 60" by simp
  with q(2) have hi: "q \<le> 2 ^ 60" by linarith
  from b have "b \<noteq> 0" by (simp add: in_range_def)
  then show "py_truediv a b = Inr (rd (of_int a / of_int b))"
    using to_double_moderate [OF q0 hi lo] by (simp add: py_truediv_def q_def)
  from rd_near [OF lo]
  show "of_int a / of_int b - of_int a / of_int b / 2 ^ 53 \<le> rd (of_int a / of_int b)"
    and "rd (of_int a / of_int b) \<le> of_int a / of_int b + of_int a / of_int b / 2 ^ 53"
    by (simp_all only: q_def)
qed

text \<open>The larger of two rounded quotients, and the product of a size with it.\<close>

lemma double_max_factor_bounds:
  assumes "in_range w" "in_range h" "in_range bw" "in_range bh"
  shows "1 / 2 ^ 25 \<le> double_max_factor w h bw bh"
    and "double_max_factor w h bw bh \<le> 2 ^ 25"
    and "spec_max_factor w h bw bh - spec_max_factor w h bw bh / 2 ^ 53
           \<le> double_max_factor w h bw bh"
    and "double_max_factor w h bw bh
           \<le> spec_max_factor w h bw bh + spec_max_factor w h bw bh / 2 ^ 53"
    and "1 / 2 ^ 24 \<le> spec_max_factor w h bw bh"
    and "spec_max_factor w h bw bh \<le> 2 ^ 24"
proof -
  define q1 :: real where "q1 = of_int bw / of_int w"
  define q2 :: real where "q2 = of_int bh / of_int h"
  note r1 = truediv_in_range(2,3) [OF assms(3,1), folded q1_def]
    and r2 = truediv_in_range(2,3) [OF assms(4,2), folded q2_def]
    and b1 = quotient_in_range [OF assms(3,1), folded q1_def]
    and b2 = quotient_in_range [OF assms(4,2), folded q2_def]
  have M: "spec_max_factor w h bw bh = max q1 q2"
    by (simp add: spec_max_factor_def q1_def q2_def)
  have m: "double_max_factor w h bw bh = max (rd q1) (rd q2)"
    by (simp add: double_max_factor_def q1_def q2_def)
  note c = pow_consts
  show "1 / 2 ^ 25 \<le> double_max_factor w h bw bh"
    unfolding m using r1(1) b1(1) unfolding c by (simp only: le_max_iff_disj) linarith
  show "double_max_factor w h bw bh \<le> 2 ^ 25"
    unfolding m using r1(2) r2(2) b1(2) b2(2) unfolding c
    by (simp only: max.bounded_iff) linarith
  show "spec_max_factor w h bw bh - spec_max_factor w h bw bh / 2 ^ 53
           \<le> double_max_factor w h bw bh"
    unfolding m M using r1(1) r2(1) unfolding c by (auto simp: max_def)
  show "double_max_factor w h bw bh
           \<le> spec_max_factor w h bw bh + spec_max_factor w h bw bh / 2 ^ 53"
    unfolding m M using r1(2) r2(2) unfolding c by (auto simp: max_def)
  show "1 / 2 ^ 24 \<le> spec_max_factor w h bw bh"
    unfolding M using b1(1) by (simp only: le_max_iff_disj simp_thms)
  show "spec_max_factor w h bw bh \<le> 2 ^ 24"
    unfolding M using b1(2) b2(2) by (simp only: max.bounded_iff simp_thms)
qed

lemma mul_in_range:
  assumes n: "0 \<le> n" "n \<le> 2 ^ 24" and m: "1 / 2 ^ 25 \<le> m" "m \<le> 2 ^ 25"
  shows "py_mul n m = Inr (rd (of_int n * m))"
    and "of_int n * m - of_int n * m / 2 ^ 53 \<le> rd (of_int n * m)"
    and "rd (of_int n * m) \<le> of_int n * m + of_int n * m / 2 ^ 53"
    and "0 \<le> of_int n * m" and "of_int n * m \<le> 2 ^ 49"
proof -
  define P :: real where "P = of_int n * m"
  have m0: "0 \<le> m" using m(1) unfolding pow_consts by linarith
  from n have rn: "(0::real) \<le> of_int n" "(of_int n :: real) \<le> 2 ^ 24"
    by (simp, metis of_int_le_numeral_power_cancel_iff)
  from rn(1) m0 show P0: "0 \<le> of_int n * m" by simp
  have "of_int n * m \<le> 2 ^ 24 * 2 ^ 25"
    using rn m m0 by (intro mult_mono) simp_all
  then show P49: "of_int n * m \<le> 2 ^ 49" by simp
  have lo: "P = 0 \<or> 1 / 2 ^ 25 \<le> P"
  proof (cases "n = 0")
    case True
    then show ?thesis by (simp add: P_def)
  next
    case False
    with n have "1 \<le> n" by simp
    then have "(1::real) \<le> of_int n" by (simp only: of_int_1_le_iff)
    then have "1 * m \<le> of_int n * m" using m0 by (intro mult_right_mono) simp_all
    then have "m \<le> of_int n * m" by simp
    from order_trans [OF m(1) this] show ?thesis unfolding P_def by (rule disjI2)
  qed
  from P49 have hi: "P \<le> 2 ^ 60" unfolding P_def pow_consts by linarith
  from n have "\<bar>n\<bar> < 2 ^ 53" by simp
  then show "py_mul n m = Inr (rd (of_int n * m))"
    using to_double_moderate [OF P0 [folded P_def] hi lo] by (simp add: py_mul_exact P_def)
  from rd_near [OF lo]
  show "of_int n * m - of_int n * m / 2 ^ 53 \<le> rd (of_int n * m)"
    and "rd (of_int n * m) \<le> of_int n * m + of_int n * m / 2 ^ 53"
    by (simp_all only: P_def)
qed

lemma ceiling_near:
  fixes x y :: real
  assumes "\<bar>x - y\<bar> < 1"
  shows "\<bar>\<lceil>x\<rceil> - \<lceil>y\<rceil>\<bar> \<le> 1"
proof -
  have "of_int \<lceil>x\<rceil> - 1 < x" "x \<le> of_int \<lceil>x\<rceil>" "of_int \<lceil>y\<rceil> - 1 < y" "y \<le> of_int \<lceil>y\<rceil>"
    by linarith+
  moreover from assms have "x - y < 1" "y - x < 1" by (simp_all add: abs_less_iff)
  ultimately have "of_int \<lceil>x\<rceil> - of_int \<lceil>y\<rceil> < (2::real)" "of_int \<lceil>y\<rceil> - of_int \<lceil>x\<rceil> < (2::real)"
    by linarith+
  then have "(of_int (\<lceil>x\<rceil> - \<lceil>y\<rceil>) :: real) < 2" "(of_int (\<lceil>y\<rceil> - \<lceil>x\<rceil>) :: real) < 2"
    by simp_all
  then have "\<lceil>x\<rceil> - \<lceil>y\<rceil> < 2" "\<lceil>y\<rceil> - \<lceil>x\<rceil> < 2"
    by (metis of_int_less_iff of_int_numeral)+
  then show ?thesis by linarith
qed

text \<open>The value of an operation at given numbers, from the binade of the exact result.\<close>

lemma rd_value:
  assumes "2 powi k \<le> \<bar>x\<bar>" "\<bar>x\<bar> < 2 powi (k + 1)" "- 1022 \<le> k"
    and "round_even (x / 2 powi (k - 52)) = n"
    and "of_int n * 2 powi (k - 52) = v"
  shows "rd x = v"
  using rd_eval [OF assms(1-3)] assms(4,5) by simp

lemma to_double_value:
  assumes "2 powi k \<le> \<bar>x\<bar>" "\<bar>x\<bar> < 2 powi (k + 1)" "- 1022 \<le> k"
    and "round_even (x / 2 powi (k - 52)) = n"
    and "of_int n * 2 powi (k - 52) = v" and "\<bar>v\<bar> < 2 ^ 1024"
  shows "to_double x = Inr v"
proof -
  from rd_eval [OF assms(1-3)] assms(4,5) have "rd x = v" by simp
  with assms(6) show ?thesis by (simp add: to_double_def)
qed

lemma truediv_value:
  assumes "b \<noteq> 0"
    and "2 powi k \<le> \<bar>of_int a / of_int b :: real\<bar>" "\<bar>of_int a / of_int b :: real\<bar> < 2 powi (k + 1)"
    and "- 1022 \<le> k"
    and "round_even (of_int a / of_int b / 2 powi (k - 52)) = n"
    and "of_int n * 2 powi (k - 52) = v" and "\<bar>v\<bar> < 2 ^ 1024"
  shows "py_truediv a b = Inr v"
  using assms(1) to_double_value [OF assms(2-)] by (simp add: py_truediv_def)

lemma mul_value:
  assumes "\<bar>i\<bar> < 2 ^ 53"
    and "2 powi k \<le> \<bar>of_int i * y\<bar>" "\<bar>of_int i * y\<bar> < 2 powi (k + 1)"
    and "- 1022 \<le> k"
    and "round_even (of_int i * y / 2 powi (k - 52)) = n"
    and "of_int n * 2 powi (k - 52) = v" and "\<bar>v\<bar> < 2 ^ 1024"
  shows "py_mul i y = Inr v"
  using to_double_value [OF assms(2-)] by (simp add: py_mul_exact [OF assms(1)])

subsection \<open>The random stream\<close>

lemma randint_range:
  assumes "randint a b g = Inr (v, g')"
  shows "a \<le> v \<and> v \<le> b"
proof -
  from assms have ab: "a \<le> b"
    by (auto simp: randint_def split: if_splits)
  obtain r g1 where d: "draw g = (r, g1)" by (cases "draw g")
  with assms ab have v: "v = a + int (r mod nat (b - a + 1))"
    by (simp add: randint_def)
  have "r mod nat (b - a + 1) < nat (b - a + 1)"
    using ab by (intro mod_less_divisor) simp
  with v ab show ?thesis by linarith
qed

lemma randint_onto:
  assumes "a \<le> v" "v \<le> b"
  shows "randint a b (nat (v - a) # g) = Inr (v, g)"
proof -
  from assms have "nat (v - a) mod nat (b - a + 1) = nat (v - a)"
    by (intro mod_less) linarith
  with assms show ?thesis by (simp add: randint_def)
qed

lemma randint_total:
  assumes "a \<le> b"
  shows "\<exists>v g'. randint a b g = Inr (v, g')"
  using assms by (simp add: randint_def split: prod.splits)

lemma randint_draw:
  assumes "a \<le> b"
  shows "randint a b g = Inr (a + int (fst (draw g) mod nat (b - a + 1)), snd (draw g))"
  using assms by (simp add: randint_def split: prod.splits)

section \<open>The standard path\<close>

text \<open>
  The rounded product of a size with a factor that is at least the rounded quotient
  \<open>bw / w\<close> still reaches \<open>bw\<close> once it is rounded up.
\<close>

lemma enlarged_covers:
  assumes w: "in_range w" and bw: "in_range bw"
    and m: "rd (of_int bw / of_int w) \<le> m" "m \<le> 2 ^ 25"
  shows "bw \<le> \<lceil>rd (of_int w * m)\<rceil>"
proof -
  define q :: real where "q = of_int bw / of_int w"
  define P :: real where "P = of_int w * m"
  note rw = in_range_real [OF w] and rb = in_range_real [OF bw]
  note rq = truediv_in_range(2) [OF bw w, folded q_def]
    and bq = quotient_in_range(1) [OF bw w, folded q_def]
  from rq bq m(1) have mlo: "1 / 2 ^ 25 \<le> m"
    unfolding q_def [symmetric] pow_consts by linarith
  from w have wn: "0 \<le> w" "w \<le> 2 ^ 24" by (simp_all add: in_range_def)
  note rP = mul_in_range(2) [OF wn mlo m(2), folded P_def]
  from rw have w0: "(0::real) < of_int w" by linarith
  then have wq: "of_int w * q = of_int bw" "q * of_int w = of_int bw" by (simp_all add: q_def)
  have "of_int w * (q - q / 2 ^ 53) \<le> of_int w * m"
    using rq m(1) w0 unfolding q_def [symmetric] by (intro mult_left_mono) simp_all
  also have "of_int w * (q - q / 2 ^ 53) = of_int bw - of_int bw / 2 ^ 53"
    by (simp add: algebra_simps wq)
  finally have "of_int bw - of_int bw / 2 ^ 53 \<le> P" by (simp only: P_def)
  with rP rb(3) have "of_int bw - 1 < rd P"
    unfolding pow_consts by linarith
  then have "of_int (bw - 1) < rd P" by simp
  then have "bw - 1 < \<lceil>rd P\<rceil>" by (simp only: less_ceiling_iff)
  then show ?thesis by (simp add: P_def)
qed

lemma double_enlarged_ge:
  assumes "in_range w" "in_range h" "in_range bw" "in_range bh"
  shows "bw \<le> fst (double_enlarged w h bw bh)" "bh \<le> snd (double_enlarged w h bw bh)"
proof -
  note b = double_max_factor_bounds(2) [OF assms]
  have "rd (of_int bw / of_int w) \<le> double_max_factor w h bw bh"
    "rd (of_int bh / of_int h) \<le> double_max_factor w h bw bh"
    by (simp_all add: double_max_factor_def)
  from enlarged_covers [OF assms(1,3) this(1) b] enlarged_covers [OF assms(2,4) this(2) b]
  show "bw \<le> fst (double_enlarged w h bw bh)" "bh \<le> snd (double_enlarged w h bw bh)"
    by (simp_all add: double_enlarged_def)
qed

text \<open>
  The size computed with doubles is within one pixel of the size that the formula gives
  in exact arithmetic.
\<close>

lemma rounded_product_near:
  assumes n: "in_range n" and rest: "in_range w" "in_range h" "in_range bw" "in_range bh"
  shows "\<bar>rd (of_int n * double_max_factor w h bw bh) - of_int n * spec_max_factor w h bw bh\<bar> < 1"
    and "0 \<le> rd (of_int n * double_max_factor w h bw bh)"
    and "rd (of_int n * double_max_factor w h bw bh) \<le> 2 ^ 49 + 1"
proof -
  define m where "m = double_max_factor w h bw bh"
  define M where "M = spec_max_factor w h bw bh"
  define P :: real where "P = of_int n * m"
  define S :: real where "S = of_int n * M"
  note b = double_max_factor_bounds [OF rest, folded m_def M_def]
  note rn = in_range_real [OF n]
  from n have nn: "0 \<le> n" "n \<le> 2 ^ 24" by (simp_all add: in_range_def)
  note rP = mul_in_range(2-5) [OF nn b(1,2), folded P_def]
  from rn have n0: "(0::real) \<le> of_int n" by linarith
  have "of_int n * (M - M / 2 ^ 53) \<le> of_int n * m"
    using b(3) n0 by (intro mult_left_mono)
  then have lo: "S - S / 2 ^ 53 \<le> P" by (simp add: S_def P_def algebra_simps)
  have "of_int n * m \<le> of_int n * (M + M / 2 ^ 53)"
    using b(4) n0 by (intro mult_left_mono)
  then have hi: "P \<le> S + S / 2 ^ 53" by (simp add: S_def P_def algebra_simps)
  have M0: "0 \<le> M" using b(5) unfolding pow_consts by linarith
  have "of_int n * M \<le> 2 ^ 24 * 2 ^ 24"
    using rn(3) b(6) n0 M0 by (intro mult_mono) simp_all
  then have S48: "S \<le> 281474976710656" by (simp add: S_def)
  from n0 M0 have S0: "0 \<le> S" by (simp add: S_def)
  from lo hi rP S48 S0 show "\<bar>rd P - S\<bar> < 1"
    unfolding pow_consts by (simp only: abs_less_iff) linarith
  from rP show "0 \<le> rd P" "rd P \<le> 2 ^ 49 + 1"
    unfolding pow_consts by linarith+
qed

lemma double_enlarged_near:
  assumes "in_range w" "in_range h" "in_range bw" "in_range bh"
  shows "\<bar>fst (double_enlarged w h bw bh) - fst (spec_enlarged w h bw bh)\<bar> \<le> 1"
    and "\<bar>snd (double_enlarged w h bw bh) - snd (spec_enlarged w h bw bh)\<bar> \<le> 1"
  using ceiling_near [OF rounded_product_near(1) [OF assms(1) assms]]
    ceiling_near [OF rounded_product_near(1) [OF assms(2) assms]]
  by (simp_all add: double_enlarged_def spec_enlarged_def)

lemma double_enlarged_small:
  assumes "in_range w" "in_range h" "in_range bw" "in_range bh"
  shows "fst (double_enlarged w h bw bh) < 2 ^ 52" "snd (double_enlarged w h bw bh) < 2 ^ 52"
proof -
  have c: "\<lceil>x\<rceil> < 2 ^ 52" if "x \<le> 2 ^ 49 + 1" for x :: real
  proof -
    have "of_int \<lceil>x\<rceil> < x + 1" by linarith
    with that have "(of_int \<lceil>x\<rceil> :: real) < 2 ^ 52" by simp
    then show ?thesis by (metis of_int_less_numeral_power_cancel_iff)
  qed
  from c [OF rounded_product_near(3) [OF assms(1) assms]]
    c [OF rounded_product_near(3) [OF assms(2) assms]]
  show "fst (double_enlarged w h bw bh) < 2 ^ 52" "snd (double_enlarged w h bw bh) < 2 ^ 52"
    by (simp_all add: double_enlarged_def)
qed

lemma crop_offsets_centre:
  assumes "new_width \<le> stw" "new_height \<le> sth"
    and "stw - new_width < 2 ^ 53" "sth - new_height < 2 ^ 53"
  shows "crop_offsets False stw sth new_width new_height g =
    Inr (((stw - new_width) div 2, (sth - new_height) div 2), g)"
proof -
  from assms have a: "\<bar>stw - new_width\<bar> < 2 ^ 53" "\<bar>sth - new_height\<bar> < 2 ^ 53" by simp_all
  have "py_truediv (stw - new_width) 2 = Inr (of_int (stw - new_width) / 2)"
    and "py_truediv (sth - new_height) 2 = Inr (of_int (sth - new_height) / 2)"
    by (rule py_truediv_half [OF a(1)], rule py_truediv_half [OF a(2)])
  moreover from assms have "py_int (of_int (stw - new_width) / 2) = (stw - new_width) div 2"
    and "py_int (of_int (sth - new_height) / 2) = (sth - new_height) div 2"
    by (simp_all only: py_int_half diff_ge_0_iff_ge)
  ultimately show ?thesis
    by (simp only: crop_offsets_def if_False and_then_def sum.case)
qed

lemma crop_offsets_random:
  assumes "new_width \<le> stw" "new_height \<le> sth"
  shows "crop_offsets True stw sth new_width new_height g =
     Inr ((int (fst (draw g) mod nat (stw - new_width + 1)),
           int (fst (draw (snd (draw g))) mod nat (sth - new_height + 1))),
          snd (draw (snd (draw g))))"
  using assms
  by (simp add: crop_offsets_def and_then_def randint_draw)

lemma mod_offset_range:
  assumes "(0::int) \<le> s"
  shows "0 \<le> int (r mod nat (s + 1))" "int (r mod nat (s + 1)) \<le> s"
proof -
  show "0 \<le> int (r mod nat (s + 1))" by simp
  have "r mod nat (s + 1) < nat (s + 1)"
    using assms by (intro mod_less_divisor) simp
  with assms show "int (r mod nat (s + 1)) \<le> s" by linarith
qed

lemma setup_standard_bucket_unfold:
  assumes r: "in_range w" "in_range h" "in_range bw" "in_range bh"
    and bucket: "get_bucket_for_image_size lib w h (resolution cfg) (bucket_tolerance cfg) = Some (bw, bh)"
  shows "setup_standard_bucket lib cfg w h file_item g =
      and_then (crop_offsets (random_crop cfg) (fst (double_enlarged w h bw bh))
                  (snd (double_enlarged w h bw bh)) bw bh g) (\<lambda>((cx, cy), g').
         Inr (file_item\<lparr>scale_to_width := fst (double_enlarged w h bw bh),
                         scale_to_height := snd (double_enlarged w h bw bh),
                         crop_height := bh, crop_width := bw,
                         crop_x := cx, crop_y := cy\<rparr>, g'))"
proof -
  define m where "m = double_max_factor w h bw bh"
  note b = double_max_factor_bounds(1,2) [OF r, folded m_def]
  from r have n: "0 \<le> w" "w \<le> 2 ^ 24" "0 \<le> h" "h \<le> 2 ^ 24" by (simp_all add: in_range_def)
  have m: "max (rd (of_int bw / of_int w)) (rd (of_int bh / of_int h)) = m"
    by (simp add: m_def double_max_factor_def)
  show ?thesis
    unfolding setup_standard_bucket_def double_enlarged_def m_def [symmetric]
    by (simp add: bucket helper_def and_then_def truediv_in_range(1) [OF r(3,1)]
        truediv_in_range(1) [OF r(4,2)] m mul_in_range(1) [OF n(1,2) b]
        mul_in_range(1) [OF n(3,4) b] py_ceil_def Let_def)
qed

lemma standard_bucket_result:
  assumes r: "in_range w" "in_range h" "in_range bw" "in_range bh"
    and bucket: "get_bucket_for_image_size lib w h (resolution cfg) (bucket_tolerance cfg) = Some (bw, bh)"
  shows "\<exists>file_item' g'.
            setup_standard_bucket lib cfg w h file_item g = Inr (file_item', g')
          \<and> (scale_to_width file_item', scale_to_height file_item') = double_enlarged w h bw bh
          \<and> bw \<le> scale_to_width file_item' \<and> bh \<le> scale_to_height file_item'
          \<and> \<bar>scale_to_width file_item' - fst (spec_enlarged w h bw bh)\<bar> \<le> 1
          \<and> \<bar>scale_to_height file_item' - snd (spec_enlarged w h bw bh)\<bar> \<le> 1
          \<and> crop_width file_item' = bw \<and> crop_height file_item' = bh
          \<and> (if random_crop cfg
              then crop_x file_item' = int (fst (draw g) mod nat (scale_to_width file_item' - bw + 1))
                 \<and> crop_y file_item' =
                      int (fst (draw (snd (draw g))) mod nat (scale_to_height file_item' - bh + 1))
                 \<and> 0 \<le> crop_x file_item' \<and> crop_x file_item' \<le> scale_to_width file_item' - bw
                 \<and> 0 \<le> crop_y file_item' \<and> crop_y file_item' \<le> scale_to_height file_item' - bh
                 \<and> g' = snd (draw (snd (draw g)))
              else crop_x file_item' = (scale_to_width file_item' - bw) div 2
                 \<and> crop_y file_item' = (scale_to_height file_item' - bh) div 2
                 \<and> g' = g)"
proof -
  define stw where "stw = fst (double_enlarged w h bw bh)"
  define sth where "sth = snd (double_enlarged w h bw bh)"
  have ge: "bw \<le> stw" "bh \<le> sth"
    using double_enlarged_ge [OF r] by (simp_all add: stw_def sth_def)
  have near: "\<bar>stw - fst (spec_enlarged w h bw bh)\<bar> \<le> 1" "\<bar>sth - snd (spec_enlarged w h bw bh)\<bar> \<le> 1"
    using double_enlarged_near [OF r] by (simp_all add: stw_def sth_def)
  from r(3,4) have "0 < bw" "0 < bh" by (simp_all add: in_range_def)
  with double_enlarged_small [OF r] have small: "stw - bw < 2 ^ 53" "sth - bh < 2 ^ 53"
    by (simp_all add: stw_def sth_def)
  note unfold = setup_standard_bucket_unfold [OF r bucket, folded stw_def sth_def]
  have pair: "double_enlarged w h bw bh = (stw, sth)"
    by (simp add: stw_def sth_def)
  from ge have slack: "0 \<le> stw - bw" "0 \<le> sth - bh" by simp_all
  show ?thesis
  proof (cases "random_crop cfg")
    case True
    with ge near mod_offset_range [OF slack(1)] mod_offset_range [OF slack(2)] show ?thesis
      by (simp add: unfold and_then_def pair crop_offsets_random)
  next
    case False
    with ge near show ?thesis
      by (simp add: unfold and_then_def pair crop_offsets_centre [OF ge small])
  qed
qed

section \<open>The point-of-interest search\<close>

lemma pick_total:
  assumes "c \<Longrightarrow> a \<le> b"
  shows "\<exists>v g'. (if c then randint a b g else Inr (d, g)) = Inr (v, g')
     \<and> (if c then a \<le> v \<and> v \<le> b else v = d)"
proof (cases c)
  case True
  with assms obtain v g' where r: "randint a b g = Inr (v, g')"
    using randint_total [of a b g] by auto
  with True randint_range [OF r] show ?thesis by simp
next
  case False
  then show ?thesis by simp
qed

lemma poi_expand_shape:
  "\<exists>px' py' crop_right crop_bottom g'.
     poi_expand iw ih (px, py, pw, ph) g = Inr ((px', py', crop_right - px', crop_bottom - py'), g')
   \<and> (if px > 0 then 0 \<le> px' \<and> px' \<le> px else px' = 0)
   \<and> (if px' + pw < iw then px' + pw \<le> crop_right \<and> crop_right \<le> iw else crop_right = iw)
   \<and> (if py > 0 then 0 \<le> py' \<and> py' \<le> py else py' = 0)
   \<and> (if py' + ph < ih then py' + ph \<le> crop_bottom \<and> crop_bottom \<le> ih else crop_bottom = ih)"
proof -
  obtain px' g1 where 1: "(if px > 0 then randint 0 px g else Inr (0, g)) = Inr (px', g1)"
      "if px > 0 then 0 \<le> px' \<and> px' \<le> px else px' = 0"
    using pick_total [of "px > 0" 0 px g 0] by auto
  obtain cr g2 where 2: "(if px' + pw < iw then randint (px' + pw) iw g1 else Inr (iw, g1)) = Inr (cr, g2)"
      "if px' + pw < iw then px' + pw \<le> cr \<and> cr \<le> iw else cr = iw"
    using pick_total [of "px' + pw < iw" "px' + pw" iw g1 iw] by auto
  obtain py' g3 where 3: "(if py > 0 then randint 0 py g2 else Inr (0, g2)) = Inr (py', g3)"
      "if py > 0 then 0 \<le> py' \<and> py' \<le> py else py' = 0"
    using pick_total [of "py > 0" 0 py g2 0] by auto
  obtain cb g4 where 4: "(if py' + ph < ih then randint (py' + ph) ih g3 else Inr (ih, g3)) = Inr (cb, g4)"
      "if py' + ph < ih then py' + ph \<le> cb \<and> cb \<le> ih else cb = ih"
    using pick_total [of "py' + ph < ih" "py' + ph" ih g3 ih] by auto
  have "poi_expand iw ih (px, py, pw, ph) g = Inr ((px', py', cr - px', cb - py'), g4)"
    unfolding poi_expand_def by (simp only: prod.case 1(1) 2(1) 3(1) 4(1) and_then_def sum.case)
  with 1(2) 2(2) 3(2) 4(2) show ?thesis by blast
qed

lemma poi_expand_never_raises: "poi_expand iw ih win g \<noteq> Inl e"
proof -
  obtain px py pw ph where "win = (px, py, pw, ph)" by (cases win) auto
  with poi_expand_shape [of iw ih px py pw ph g] show ?thesis by auto
qed

lemma poi_search_counter:
  assumes "poi_search lib res iw ih win n g = Inr (found, k, g')" "n \<le> 100"
  shows "(\<forall>win'. found = Some win' \<longrightarrow> n \<le> k \<and> k \<le> 100) \<and> (found = None \<longrightarrow> k = 101)"
  using assms
proof (induction lib res iw ih win n g rule: poi_search.induct)
  case (1 lib res iw ih win n g)
  from poi_expand_never_raises [of iw ih win g]
  obtain win' g1 where e: "poi_expand iw ih win g = Inr (win', g1)"
    by (cases "poi_expand iw ih win g") auto
  from "1.prems"(1) e obtain cur where
    r: "get_resolution lib (fst (snd (snd win'))) (snd (snd (snd win'))) = Some cur"
    by (subst (asm) poi_search.simps) (auto split: option.splits)
  show ?case
  proof (cases "res \<le> cur")
    case True
    with "1.prems" e r show ?thesis
      by (subst (asm) poi_search.simps) (cases win'; auto)
  next
    case False
    show ?thesis
    proof (cases "n + 1 > 100")
      case True
      with False "1.prems" e r show ?thesis
        by (subst (asm) poi_search.simps) simp
    next
      case big: False
      with False "1.prems"(1) e r
      have "poi_search lib res iw ih win' (n + 1) g1 = Inr (found, k, g')"
        by (subst (asm) poi_search.simps) auto
      with "1.IH" [OF e refl r False big] big
      show ?thesis by (cases found) auto
    qed
  qed
qed

lemma poi_search_raises:
  assumes "poi_search lib res iw ih win n g = Inl e"
  shows "e = HelperError"
  using assms
proof (induction lib res iw ih win n g rule: poi_search.induct)
  case (1 lib res iw ih win n g)
  from poi_expand_never_raises [of iw ih win g]
  obtain win' g1 where e: "poi_expand iw ih win g = Inr (win', g1)"
    by (cases "poi_expand iw ih win g") auto
  show ?case
  proof (cases "get_resolution lib (fst (snd (snd win'))) (snd (snd (snd win')))")
    case None
    with "1.prems" e show ?thesis by (subst (asm) poi_search.simps) auto
  next
    case (Some cur)
    with "1.prems" e have *: "\<not> res \<le> cur" "\<not> n + 1 > 100"
      "poi_search lib res iw ih win' (n + 1) g1 = Inl e"
      by (subst (asm) poi_search.simps, auto split: if_splits)+
    with "1.IH" [OF e refl Some] show ?thesis by simp
  qed
qed

lemma poi_expand_inv:
  assumes e: "poi_expand iw ih (px, py, pw, ph) g = Inr ((px', py', pw', ph'), g')"
    and "0 < iw" "0 < ih" "px < iw" "py < ih" "0 < pw" "0 < ph"
  shows "0 \<le> px' \<and> px' < iw \<and> 0 < pw' \<and> px' + pw' \<le> iw
       \<and> 0 \<le> py' \<and> py' < ih \<and> 0 < ph' \<and> py' + ph' \<le> ih"
proof -
  from poi_expand_shape [of iw ih px py pw ph g] e
  obtain cr cb where
    "pw' = cr - px'" "ph' = cb - py'"
    "if px > 0 then 0 \<le> px' \<and> px' \<le> px else px' = 0"
    "if px' + pw < iw then px' + pw \<le> cr \<and> cr \<le> iw else cr = iw"
    "if py > 0 then 0 \<le> py' \<and> py' \<le> py else py' = 0"
    "if py' + ph < ih then py' + ph \<le> cb \<and> cb \<le> ih else cb = ih"
    by auto
  with assms(2-) show ?thesis
    by (auto split: if_splits)
qed

lemma poi_search_window:
  assumes "poi_search lib res iw ih (px, py, pw, ph) n g = Inr (Some (px', py', nw, nh), k, g')"
    and "0 < iw" "0 < ih" "px < iw" "py < ih" "0 < pw" "0 < ph"
  shows "0 \<le> px' \<and> 0 < nw \<and> px' + nw \<le> iw \<and> 0 \<le> py' \<and> 0 < nh \<and> py' + nh \<le> ih"
  using assms
proof (induction lib res iw ih "(px, py, pw, ph)" n g arbitrary: px py pw ph
    rule: poi_search.induct)
  case (1 lib res iw ih n g)
  from poi_expand_never_raises [of iw ih "(px, py, pw, ph)" g]
  obtain qx qy qw qh g1 where e: "poi_expand iw ih (px, py, pw, ph) g = Inr ((qx, qy, qw, qh), g1)"
    by (cases "poi_expand iw ih (px, py, pw, ph) g") auto
  from poi_expand_inv [OF e "1.prems"(2-)]
  have inv: "0 \<le> qx" "qx < iw" "0 < qw" "qx + qw \<le> iw" "0 \<le> qy" "qy < ih" "0 < qh" "qy + qh \<le> ih"
    by simp_all
  from "1.prems"(1) e obtain cur where r: "get_resolution lib qw qh = Some cur"
    by (subst (asm) poi_search.simps) (auto split: option.splits)
  show ?case
  proof (cases "res \<le> cur")
    case True
    with "1.prems"(1) e r have "(px', py', nw, nh) = (qx, qy, qw, qh)"
      by (subst (asm) poi_search.simps) simp
    with inv show ?thesis by simp
  next
    case False
    with "1.prems"(1) e r have big: "\<not> n + 1 > 100"
      and rec: "poi_search lib res iw ih (qx, qy, qw, qh) (n + 1) g1 = Inr (Some (px', py', nw, nh), k, g')"
      by (subst (asm) poi_search.simps, simp split: if_splits)+
    from r have r': "get_resolution lib (fst (snd (snd (qx, qy, qw, qh)))) (snd (snd (snd (qx, qy, qw, qh)))) = Some cur"
      by simp
    show ?thesis
      by (rule "1.hyps" [OF e refl r' False big rec "1.prems"(2,3) inv(2,6,3,7)])
  qed
qed

text \<open>
  The crop offset and the enlarged size, both computed with doubles from the same factor:
  the window of width \<open>nw\<close> at offset \<open>p\<close> lies in the image of width \<open>iw\<close>, so the
  bucket still fits behind the offset after scaling.
\<close>

lemma poi_geometry:
  assumes p: "0 \<le> p" "0 < nw" "p + nw \<le> iw" and iw: "in_range iw" and bw: "in_range bw"
    and m: "rd (of_int bw / of_int nw) \<le> m" "m \<le> 2 ^ 25"
  shows "py_int (rd (of_int p * m)) + bw \<le> \<lceil>rd (of_int iw * m)\<rceil>"
proof -
  define q :: real where "q = of_int bw / of_int nw"
  define A :: real where "A = of_int p * m"
  define B :: real where "B = of_int iw * m"
  from p iw have nw: "in_range nw" and pn: "0 \<le> p" "p \<le> 2 ^ 24"
    and wn: "0 \<le> iw" "iw \<le> 2 ^ 24"
    by (simp_all add: in_range_def)
  note rq = truediv_in_range(2) [OF bw nw, folded q_def]
    and bq = quotient_in_range(1) [OF bw nw, folded q_def]
    and rb = in_range_real [OF bw] and rn = in_range_real [OF nw]
  from rq bq m(1) have mlo: "1 / 2 ^ 25 \<le> m"
    unfolding q_def [symmetric] pow_consts by linarith
  then have m0: "0 \<le> m" unfolding pow_consts by linarith
  note rA = mul_in_range(2-5) [OF pn mlo m(2), folded A_def]
    and rB = mul_in_range(2-5) [OF wn mlo m(2), folded B_def]
  from rn have n0: "(0::real) < of_int nw" by linarith
  then have nq: "of_int nw * q = of_int bw" "q * of_int nw = of_int bw" by (simp_all add: q_def)
  have "of_int nw * (q - q / 2 ^ 53) \<le> of_int nw * m"
    using rq m(1) n0 unfolding q_def [symmetric] by (intro mult_left_mono) simp_all
  also have "of_int nw * (q - q / 2 ^ 53) = of_int bw - of_int bw / 2 ^ 53"
    by (simp add: algebra_simps nq)
  finally have 1: "of_int bw - of_int bw / 2 ^ 53 \<le> of_int nw * m" .
  from p(3) have "of_int (p + nw) \<le> (of_int iw :: real)" by (simp only: of_int_le_iff)
  then have "of_int (p + nw) * m \<le> of_int iw * m"
    using m0 by (rule mult_right_mono)
  then have 2: "A + of_int nw * m \<le> B" by (simp add: A_def B_def algebra_simps)
  from rA have "0 \<le> rd A" unfolding pow_consts by linarith
  then have "py_int (rd A) = \<lfloor>rd A\<rfloor>" by (rule py_int_nonneg)
  then have 3: "of_int (py_int (rd A)) \<le> rd A" by simp
  have 4: "rd B \<le> of_int \<lceil>rd B\<rceil>" by (rule le_of_int_ceiling)
  from 1 2 3 4 rA rB rb(3)
  have "of_int (py_int (rd A)) + of_int bw - 1 < (of_int \<lceil>rd B\<rceil> :: real)"
    unfolding pow_consts by linarith
  then have "(of_int (py_int (rd A) + bw - 1) :: real) < of_int \<lceil>rd B\<rceil>" by simp
  then have "py_int (rd A) + bw - 1 < \<lceil>rd B\<rceil>" by (simp only: of_int_less_iff)
  then show ?thesis by (simp add: A_def B_def)
qed

lemma setup_poi_bucket_False:
  assumes "setup_poi_bucket lib self g = Inr (False, self', g')"
  shows "self' = self"
  using assms
  by (auto simp: setup_poi_bucket_def and_then_def helper_def Let_def
      split: option.splits if_splits sum.splits prod.splits)

lemma setup_poi_bucket_True:
  assumes "setup_poi_bucket lib self g = Inr (True, self', g')"
  shows "\<exists>iw ih px py pw ph px' py' nw nh k bw bh wsf hsf sw sh cx cy.
      scaled self (width self) = Inr iw \<and> scaled self (height self) = Inr ih
    \<and> scaled self (poi_x self) = Inr px \<and> scaled self (poi_y self) = Inr py
    \<and> scaled self (poi_width self) = Inr pw \<and> scaled self (poi_height self) = Inr ph
    \<and> poi_search lib (resolution (dataset_config self)) iw ih (px, py, pw, ph) 0 g
        = Inr (Some (px', py', nw, nh), k, g')
    \<and> get_bucket_for_image_size lib nw nh (resolution (dataset_config self))
         (bucket_tolerance (dataset_config self)) = Some (bw, bh)
    \<and> py_truediv bw nw = Inr wsf \<and> py_truediv bh nh = Inr hsf
    \<and> py_mul iw (max wsf hsf) = Inr sw \<and> py_mul ih (max wsf hsf) = Inr sh
    \<and> py_mul px' (max wsf hsf) = Inr cx \<and> py_mul py' (max wsf hsf) = Inr cy
    \<and> self' = self\<lparr>scale_to_width := py_ceil sw, scale_to_height := py_ceil sh,
                     crop_width := bw, crop_height := bh,
                     crop_x := py_int cx, crop_y := py_int cy\<rparr>"
  using assms
  by (auto simp: setup_poi_bucket_def and_then_def helper_def Let_def
      split: option.splits if_splits sum.splits prod.splits)

lemma roi_fields:
  "width roi_item = 2048" "height roi_item = 2048" "dataset_config roi_item = roi_config"
  "poi_x roi_item = 1024" "poi_y roi_item = 1024" "poi_width roi_item = 512" "poi_height roi_item = 512"
  "resolution roi_config = 512" "bucket_tolerance roi_config = 64" "scale roi_config = 1"
  by (simp_all add: roi_item_def roi_config_def example_item_def example_config_def)

lemma scaled_roi: "\<bar>v\<bar> < 2 ^ 53 \<Longrightarrow> scaled roi_item v = Inr v"
  by (rule scaled_unit) (simp_all add: roi_fields)

lemma unit_products:
  "py_truediv 512 512 = Inr 1" "py_mul 2048 1 = Inr 2048" "py_mul 0 1 = Inr 0"
  using py_truediv_self [of 512] py_mul_one [of 2048] py_mul_one [of 0] by simp_all

lemma roi_search:
  assumes "get_resolution lib 512 512 = Some r1" "512 \<le> r1"
  shows "poi_search lib 512 2048 2048 (1024, 1024, 512, 512) 0 [0, 0, 0, 0]
     = Inr (Some (0, 0, 512, 512), 0, [])"
  using assms
  by (simp add: poi_search.simps poi_expand_def randint_def and_then_def)

text \<open>
  Claim C2.  The claim is that a successful search returns a crop that contains the
  region of interest.  The code does not achieve it: the new right edge is drawn from
  \<open>[poi_x' + poi_width, initial_width]\<close> with the left edge \<open>poi_x'\<close> that has just been
  moved, so the window can end before the region starts.  For a 2048 by 2048 image with
  the region \<open>[1024, 1536]\<close> on both axes and draws that pick the lower end of each
  range, \<^verbatim>\<open>setup_poi_bucket\<close> returns \<^verbatim>\<open>True\<close> with the crop \<open>[0, 512]\<close> on both
  axes, which misses the region.  The helpers are only consulted at the three points
  named in the hypotheses.
\<close>

theorem poi_crop_misses_region:
  assumes "get_resolution lib 2048 2048 = Some r0" "512 < r0"
    and "get_resolution lib 512 512 = Some r1" "512 \<le> r1"
    and "get_bucket_for_image_size lib 512 512 512 64 = Some (512, 512)"
  shows "setup_poi_bucket lib roi_item [0, 0, 0, 0] =
           Inr (True, roi_item\<lparr>scale_to_width := 2048, scale_to_height := 2048,
                  crop_width := 512, crop_height := 512, crop_x := 0, crop_y := 0\<rparr>, [])
       \<and> \<not> crop_contains_poi (roi_item\<lparr>scale_to_width := 2048, scale_to_height := 2048,
                  crop_width := 512, crop_height := 512, crop_x := 0, crop_y := 0\<rparr>)"
proof -
  have "setup_poi_bucket lib roi_item [0, 0, 0, 0] =
           Inr (True, roi_item\<lparr>scale_to_width := 2048, scale_to_height := 2048,
                  crop_width := 512, crop_height := 512, crop_x := 0, crop_y := 0\<rparr>, [])"
    using assms(1,2,5)
    by (simp add: setup_poi_bucket_def scaled_roi roi_fields roi_search [OF assms(3,4)]
        and_then_def helper_def unit_products py_int_def py_ceil_def Let_def)
  moreover have "\<not> crop_contains_poi (roi_item\<lparr>scale_to_width := 2048, scale_to_height := 2048,
                  crop_width := 512, crop_height := 512, crop_x := 0, crop_y := 0\<rparr>)"
    by (simp add: crop_contains_poi_def roi_fields)
  ultimately show ?thesis by simp
qed

theorem poi_crop_misses_region_witness:
  "setup_poi_bucket side_lib roi_item [0, 0, 0, 0] =
           Inr (True, roi_item\<lparr>scale_to_width := 2048, scale_to_height := 2048,
                  crop_width := 512, crop_height := 512, crop_x := 0, crop_y := 0\<rparr>, [])
       \<and> \<not> crop_contains_poi (roi_item\<lparr>scale_to_width := 2048, scale_to_height := 2048,
                  crop_width := 512, crop_height := 512, crop_x := 0, crop_y := 0\<rparr>)"
  by (rule poi_crop_misses_region [of side_lib 2048 512]) (simp_all add: side_lib_def)

lemma corner_fields:
  "width corner_item = 2048" "height corner_item = 2048" "dataset_config corner_item = roi_config"
  "poi_x corner_item = 0" "poi_y corner_item = 0" "poi_width corner_item = 100" "poi_height corner_item = 100"
  by (simp_all add: corner_item_def roi_item_def roi_config_def example_item_def example_config_def)

lemma scaled_corner: "\<bar>v\<bar> < 2 ^ 53 \<Longrightarrow> scaled corner_item v = Inr v"
  by (rule scaled_unit) (simp_all add: corner_fields roi_fields)

lemma corner_search:
  "poi_search side_lib 512 2048 2048 (0, 0, 100, 100) 0 [] = Inr (None, 101, [])"
  by (simp add: poi_search.simps poi_expand_def randint_def and_then_def side_lib_def)

text \<open>
  Claim C9.  \<open>poi_search\<close> is a total function: its recursion is bounded by the
  counter \<^verbatim>\<open>num_loops\<close>.  Started at 0, the loop raises only what
  \<^verbatim>\<open>get_resolution\<close> raises; it succeeds after at most 100 failed attempts, or gives
  up when the counter reaches 101, that is after the first attempt and 100 retries.
  On giving up \<^verbatim>\<open>setup_poi_bucket\<close> returns \<^verbatim>\<open>False\<close> and leaves the item as it
  was; when the resolution of the scaled image is at most the target it returns
  \<^verbatim>\<open>False\<close> without a draw.  After \<^verbatim>\<open>False\<close> the loop body of
  \<^verbatim>\<open>setup_buckets\<close> goes on with the standard path.  The scaled sizes \<open>iw0\<close>,
  \<open>ih0\<close> and the scaled region \<open>(px, py, pw, ph)\<close> are the values that the
  conversions \<^verbatim>\<open>int(... * scale)\<close> return.
\<close>

theorem setup_poi_bucket_terminates:
  "(poi_search lib res iw ih win 0 g = Inl e \<longrightarrow> e = HelperError)
   \<and> (poi_search lib res iw ih win 0 g = Inr (found, k, g') \<longrightarrow>
        (found = None \<longrightarrow> k = 101) \<and> (found \<noteq> None \<longrightarrow> k \<le> 100))
   \<and> (scaled self (width self) = Inr iw0 \<and> scaled self (height self) = Inr ih0
        \<and> get_resolution lib iw0 ih0 = Some r
        \<and> \<not> r \<le> resolution (dataset_config self)
        \<and> scaled self (poi_x self) = Inr px \<and> scaled self (poi_y self) = Inr py
        \<and> scaled self (poi_width self) = Inr pw \<and> scaled self (poi_height self) = Inr ph
        \<and> poi_search lib (resolution (dataset_config self)) iw0 ih0 (px, py, pw, ph) 0 g0
            = Inr (None, k0, g1)
        \<longrightarrow> setup_poi_bucket lib self g0 = Inr (False, self, g1))
   \<and> (scaled self (width self) = Inr iw0 \<and> scaled self (height self) = Inr ih0
        \<and> get_resolution lib iw0 ih0 = Some r
        \<and> r \<le> resolution (dataset_config self)
        \<longrightarrow> setup_poi_bucket lib self g0 = Inr (False, self, g0))
   \<and> (has_point_of_interest self \<and> setup_poi_bucket lib self g0 = Inr (False, self, g1)
        \<and> scaled self (width self) = Inr iw0 \<and> scaled self (height self) = Inr ih0
        \<longrightarrow> setup_item lib cfg self g0 = setup_standard_bucket lib cfg iw0 ih0 self g1)"
proof (intro conjI impI)
  assume "poi_search lib res iw ih win 0 g = Inl e"
  then show "e = HelperError" by (rule poi_search_raises)
next
  assume a: "poi_search lib res iw ih win 0 g = Inr (found, k, g')"
  from poi_search_counter [OF a] show "found = None \<Longrightarrow> k = 101" by simp
  from poi_search_counter [OF a] show "found \<noteq> None \<Longrightarrow> k \<le> 100" by auto
next
  assume "scaled self (width self) = Inr iw0 \<and> scaled self (height self) = Inr ih0
        \<and> get_resolution lib iw0 ih0 = Some r
        \<and> \<not> r \<le> resolution (dataset_config self)
        \<and> scaled self (poi_x self) = Inr px \<and> scaled self (poi_y self) = Inr py
        \<and> scaled self (poi_width self) = Inr pw \<and> scaled self (poi_height self) = Inr ph
        \<and> poi_search lib (resolution (dataset_config self)) iw0 ih0 (px, py, pw, ph) 0 g0
            = Inr (None, k0, g1)"
  then show "setup_poi_bucket lib self g0 = Inr (False, self, g1)"
    by (simp add: setup_poi_bucket_def and_then_def helper_def Let_def)
next
  assume "scaled self (width self) = Inr iw0 \<and> scaled self (height self) = Inr ih0
        \<and> get_resolution lib iw0 ih0 = Some r
        \<and> r \<le> resolution (dataset_config self)"
  then show "setup_poi_bucket lib self g0 = Inr (False, self, g0)"
    by (simp add: setup_poi_bucket_def and_then_def helper_def Let_def)
next
  assume "has_point_of_interest self \<and> setup_poi_bucket lib self g0 = Inr (False, self, g1)
        \<and> scaled self (width self) = Inr iw0 \<and> scaled self (height self) = Inr ih0"
  then show "setup_item lib cfg self g0 = setup_standard_bucket lib cfg iw0 ih0 self g1"
    by (simp add: setup_item_def and_then_def)
qed

theorem setup_poi_bucket_terminates_witness:
  "poi_search side_lib 512 2048 2048 (0, 0, 100, 100) 0 [] = Inr (None, 101, [])
   \<and> setup_poi_bucket side_lib corner_item [] = Inr (False, corner_item, [])"
  using setup_poi_bucket_terminates [of side_lib 512 2048 2048 "(0, 0, 100, 100)" "[]" HelperError
      None 101 "[]" corner_item 2048 2048 2048 0 0 100 100 "[]" 101 "[]" roi_config] corner_search
  by (simp add: scaled_corner corner_fields roi_fields side_lib_def)

section \<open>The geometry invariant\<close>

lemma well_formed_itemD:
  assumes "well_formed_item self"
  obtains iw ih where "scaled self (width self) = Inr iw" "scaled self (height self) = Inr ih"
    "in_range iw" "in_range ih"
    "has_point_of_interest self \<Longrightarrow>
       \<exists>px py pw ph. scaled self (poi_x self) = Inr px \<and> scaled self (poi_y self) = Inr py
         \<and> scaled self (poi_width self) = Inr pw \<and> scaled self (poi_height self) = Inr ph
         \<and> px < iw \<and> py < ih \<and> 0 < pw \<and> 0 < ph"
  using assms unfolding well_formed_item_def
  by (auto split: sum.splits)

lemma setup_poi_bucket_consistent:
  assumes ok: "setup_poi_bucket lib self g = Inr (True, self', g')"
    and wf: "well_formed_item self" "has_point_of_interest self"
    and pos: "buckets_in_range lib"
  shows "consistent_geometry self'"
proof -
  from setup_poi_bucket_True [OF ok]
  obtain iw ih px py pw ph px' py' nw nh k bw bh wsf hsf sw sh cx cy where
    sc: "scaled self (width self) = Inr iw" "scaled self (height self) = Inr ih"
      "scaled self (poi_x self) = Inr px" "scaled self (poi_y self) = Inr py"
      "scaled self (poi_width self) = Inr pw" "scaled self (poi_height self) = Inr ph"
    and search: "poi_search lib (resolution (dataset_config self)) iw ih (px, py, pw, ph) 0 g
        = Inr (Some (px', py', nw, nh), k, g')"
    and bucket: "get_bucket_for_image_size lib nw nh (resolution (dataset_config self))
         (bucket_tolerance (dataset_config self)) = Some (bw, bh)"
    and f: "py_truediv bw nw = Inr wsf" "py_truediv bh nh = Inr hsf"
    and pr: "py_mul iw (max wsf hsf) = Inr sw" "py_mul ih (max wsf hsf) = Inr sh"
      "py_mul px' (max wsf hsf) = Inr cx" "py_mul py' (max wsf hsf) = Inr cy"
    and self': "self' = self\<lparr>scale_to_width := py_ceil sw, scale_to_height := py_ceil sh,
                     crop_width := bw, crop_height := bh,
                     crop_x := py_int cx, crop_y := py_int cy\<rparr>"
    by blast
  from wf sc have r: "in_range iw" "in_range ih" and dims: "px < iw" "py < ih" "0 < pw" "0 < ph"
    by (auto elim!: well_formed_itemD)
  from r have pos0: "0 < iw" "0 < ih" and le: "iw \<le> 2 ^ 24" "ih \<le> 2 ^ 24"
    by (simp_all add: in_range_def)
  from poi_search_window [OF search pos0 dims]
  have win: "0 \<le> px'" "0 < nw" "px' + nw \<le> iw" "0 \<le> py'" "0 < nh" "py' + nh \<le> ih"
    by simp_all
  with le have n: "in_range nw" "in_range nh" and o: "px' \<le> 2 ^ 24" "py' \<le> 2 ^ 24"
    by (simp_all add: in_range_def)
  from pos bucket have b: "in_range bw" "in_range bh"
    by (auto simp: buckets_in_range_def)
  define m where "m = double_max_factor nw nh bw bh"
  from f truediv_in_range(1) [OF b(1) n(1)] truediv_in_range(1) [OF b(2) n(2)]
  have m: "max wsf hsf = m" by (simp add: m_def double_max_factor_def)
  note mb = double_max_factor_bounds(1,2) [OF n b, folded m_def]
  have ge: "rd (of_int bw / of_int nw) \<le> m" "rd (of_int bh / of_int nh) \<le> m"
    by (simp_all add: m_def double_max_factor_def)
  from pos0 have i0: "0 \<le> iw" "0 \<le> ih" by simp_all
  from pr mul_in_range(1) [OF i0(1) le(1) mb] mul_in_range(1) [OF i0(2) le(2) mb]
    mul_in_range(1) [OF win(1) o(1) mb] mul_in_range(1) [OF win(4) o(2) mb]
  have v: "sw = rd (of_int iw * m)" "sh = rd (of_int ih * m)"
    "cx = rd (of_int px' * m)" "cy = rd (of_int py' * m)"
    by (simp_all add: m)
  have "py_int cx + bw \<le> py_ceil sw"
    unfolding v py_ceil_def by (rule poi_geometry [OF win(1-3) r(1) b(1) ge(1) mb(2)])
  moreover have "py_int cy + bh \<le> py_ceil sh"
    unfolding v py_ceil_def by (rule poi_geometry [OF win(4-6) r(2) b(2) ge(2) mb(2)])
  ultimately show ?thesis
    by (simp add: consistent_geometry_def self')
qed

lemma setup_standard_bucket_consistent:
  assumes ok: "setup_standard_bucket lib cfg w h file_item g = Inr (file_item', g')"
    and r: "in_range w" "in_range h"
    and pos: "buckets_in_range lib"
  shows "consistent_geometry file_item'"
proof -
  from ok obtain bw bh where
    bucket: "get_bucket_for_image_size lib w h (resolution cfg) (bucket_tolerance cfg) = Some (bw, bh)"
    by (auto simp: setup_standard_bucket_def and_then_def helper_def split: option.splits)
  with pos have b: "in_range bw" "in_range bh"
    by (auto simp: buckets_in_range_def)
  from standard_bucket_result [OF r b bucket, of file_item g] ok
  have "bw \<le> scale_to_width file_item'" "bh \<le> scale_to_height file_item'"
    "crop_width file_item' = bw" "crop_height file_item' = bh"
    "if random_crop cfg
       then 0 \<le> crop_x file_item' \<and> crop_x file_item' \<le> scale_to_width file_item' - bw
          \<and> 0 \<le> crop_y file_item' \<and> crop_y file_item' \<le> scale_to_height file_item' - bh
       else crop_x file_item' = (scale_to_width file_item' - bw) div 2
          \<and> crop_y file_item' = (scale_to_height file_item' - bh) div 2"
    by (auto split: if_splits)
  then show ?thesis
    by (auto simp: consistent_geometry_def split: if_splits)
qed

lemma setup_item_consistent:
  assumes ok: "setup_item lib cfg file_item g = Inr (file_item', g')"
    and wf: "well_formed_item file_item"
    and pos: "buckets_in_range lib"
  shows "consistent_geometry file_item'"
proof -
  from wf obtain w h where
    sc: "scaled file_item (width file_item) = Inr w" "scaled file_item (height file_item) = Inr h"
    and r: "in_range w" "in_range h"
    by (rule well_formed_itemD)
  show ?thesis
  proof (cases "has_point_of_interest file_item")
    case False
    with ok sc have "setup_standard_bucket lib cfg w h file_item g = Inr (file_item', g')"
      by (simp add: setup_item_def and_then_def)
    then show ?thesis using r pos by (rule setup_standard_bucket_consistent)
  next
    case True
    with ok sc obtain did mid g1 where
      p: "setup_poi_bucket lib file_item g = Inr (did, mid, g1)"
      and rest: "if \<not> did then setup_standard_bucket lib cfg w h mid g1 = Inr (file_item', g')
        else (file_item', g') = (mid, g1)"
      by (auto simp: setup_item_def and_then_def split: sum.splits if_splits)
    show ?thesis
    proof (cases did)
      case True
      with p rest have "setup_poi_bucket lib file_item g = Inr (True, file_item', g')" by simp
      then show ?thesis using wf \<open>has_point_of_interest file_item\<close> pos
        by (rule setup_poi_bucket_consistent)
    next
      case False
      with rest have "setup_standard_bucket lib cfg w h mid g1 = Inr (file_item', g')" by simp
      then show ?thesis using r pos by (rule setup_standard_bucket_consistent)
    qed
  qed
qed

lemma setup_buckets_loop_consistent:
  assumes "setup_buckets_loop lib cfg idx items bs g = Inr (items', bs', g')"
    and "\<forall>it \<in> set items. well_formed_item it"
    and "buckets_in_range lib"
  shows "\<forall>it' \<in> set items'. consistent_geometry it'"
  using assms
proof (induction items arbitrary: idx bs g items' bs' g')
  case Nil
  then show ?case by simp
next
  case (Cons file_item rest)
  from Cons.prems(1) obtain file_item' g1 rest' where
    item: "setup_item lib cfg file_item g = Inr (file_item', g1)"
    and loop: "setup_buckets_loop lib cfg (Suc idx) rest (add_to_bucket file_item' idx bs) g1
        = Inr (rest', bs', g')"
    and items': "items' = file_item' # rest'"
    by (auto simp: and_then_def split: sum.splits)
  from item Cons.prems(2,3) have "consistent_geometry file_item'"
    by (intro setup_item_consistent [OF item]) simp_all
  moreover from Cons.IH [OF loop] Cons.prems(2,3)
  have "\<forall>it' \<in> set rest'. consistent_geometry it'" by simp
  ultimately show ?case by (simp add: items')
qed

lemma str_int_512: "str_int 512 = ''512''" "str_int 576 = ''576''" "str_int 448 = ''448''"
  by (simp_all add: str_int_def str_nat.simps digit_def)

lemma example_fields:
  "width example_item = 1600" "height example_item = 1200" "dataset_config example_item = example_config"
  "\<not> has_point_of_interest example_item" "scale example_config = 1"
  "resolution example_config = 512" "bucket_tolerance example_config = 64"
  "\<not> random_crop example_config" "\<not> random_crop roi_config" "has_point_of_interest roi_item"
  by (simp_all add: roi_item_def roi_config_def example_item_def example_config_def)

lemma scaled_example: "\<bar>v\<bar> < 2 ^ 53 \<Longrightarrow> scaled example_item v = Inr v"
  by (rule scaled_unit) (simp_all add: example_fields)

lemma example_factors:
  "py_truediv 576 1600 = Inr (3242591731706757 / 9007199254740992)"
  "py_truediv 448 1200 = Inr (6725375443539941 / 18014398509481984)"
  by (rule truediv_value [where k = "- 2" and n = 6485183463413514], simp_all add: round_even_def)
    (rule truediv_value [where k = "- 2" and n = 6725375443539941], simp_all add: round_even_def)

lemma example_products:
  "py_mul 1600 (6725375443539941 / 18014398509481984) = Inr (5254199565265579 / 8796093022208)"
  "py_mul 1200 (6725375443539941 / 18014398509481984) = Inr 448"
  by (rule mul_value [where k = 9 and n = 5254199565265579], simp_all add: round_even_def)
    (rule mul_value [where k = 8 and n = 7881299347898368], simp_all add: round_even_def)

lemma landscape_run:
  assumes "get_bucket_for_image_size lib 1600 1200 512 64 = Some (576, 448)"
  shows "setup_standard_bucket lib roi_config 1600 1200 file_item g =
     Inr (file_item\<lparr>scale_to_width := 598, scale_to_height := 448,
            crop_height := 448, crop_width := 576, crop_x := 11, crop_y := 0\<rparr>, g)"
  using assms
  by (simp add: setup_standard_bucket_def roi_fields example_fields helper_def and_then_def
      example_factors example_products py_ceil_def crop_offsets_def py_truediv_half py_int_def)

lemma example_item_setup:
  "setup_item side_lib roi_config example_item g = Inr (example_item_done, g)"
  by (simp add: setup_item_def example_fields scaled_example and_then_def landscape_run
      side_lib_def example_item_done_def)

lemma roi_item_setup:
  "setup_item side_lib roi_config roi_item [] = Inr (roi_item_done, [])"
proof -
  have "setup_poi_bucket side_lib roi_item [] = Inr (True, roi_item_done, [])"
    by (simp add: setup_poi_bucket_def scaled_roi roi_fields poi_search.simps poi_expand_def
        randint_def side_lib_def and_then_def helper_def unit_products py_int_def py_ceil_def
        roi_item_done_def)
  then show ?thesis
    by (simp add: setup_item_def example_fields scaled_roi roi_fields and_then_def)
qed

lemma done_keys:
  "bucket_key example_item_done = ''576x448''" "bucket_key roi_item_done = ''512x512''"
  "crop_width example_item_done = 576" "crop_height example_item_done = 448"
  "crop_width roi_item_done = 512" "crop_height roi_item_done = 512"
  by (simp_all add: bucket_key_def example_item_done_def roi_item_done_def str_int_512)

lemma example_buckets:
  "add_to_bucket roi_item_done (Suc 0) (add_to_bucket example_item_done 0 []) =
     [(''576x448'', \<lparr>bucket_width = 576, bucket_height = 448, file_list_idx = [0]\<rparr>),
      (''512x512'', \<lparr>bucket_width = 512, bucket_height = 512, file_list_idx = [Suc 0]\<rparr>)]"
  by (simp add: add_to_bucket_def done_keys)

lemma example_loop:
  "setup_buckets_loop side_lib roi_config 0 [example_item, roi_item] [] [] =
     Inr ([example_item_done, roi_item_done],
       [(''576x448'', \<lparr>bucket_width = 576, bucket_height = 448, file_list_idx = [0]\<rparr>),
        (''512x512'', \<lparr>bucket_width = 512, bucket_height = 512, file_list_idx = [Suc 0]\<rparr>)], [])"
  by (simp add: example_item_setup roi_item_setup and_then_def example_buckets)

lemma example_dataset_setup:
  "setup_buckets side_lib example_dataset [] =
     Inr (example_dataset\<lparr>
        file_list := [example_item_done, roi_item_done],
        buckets := [(''576x448'', \<lparr>bucket_width = 576, bucket_height = 448, file_list_idx = [0]\<rparr>),
                    (''512x512'', \<lparr>bucket_width = 512, bucket_height = 512, file_list_idx = [Suc 0]\<rparr>)],
        batch_indices := [[0], [Suc 0]]\<rparr>, [])"
  by (simp add: setup_buckets_def example_dataset_def example_loop and_then_def
      shuffle_def batches_of_def chunks.simps del: setup_buckets_loop.simps)

lemma side_lib_in_range: "buckets_in_range side_lib"
  by (auto simp: buckets_in_range_def side_lib_def in_range_def split: if_splits)

lemma example_well_formed: "well_formed_item example_item" "well_formed_item roi_item"
  by (simp_all add: well_formed_item_def scaled_example scaled_roi example_fields roi_fields
      in_range_def)

text \<open>The item whose region of interest lies outside the image.\<close>

lemma far_fields:
  "width far_item = 2048" "height far_item = 2048" "dataset_config far_item = roi_config"
  "poi_x far_item = 4000" "poi_y far_item = 3000" "poi_width far_item = 100" "poi_height far_item = 100"
  "has_point_of_interest far_item"
  by (simp_all add: far_item_def roi_item_def roi_config_def example_item_def example_config_def)

lemma scaled_far: "\<bar>v\<bar> < 2 ^ 53 \<Longrightarrow> scaled far_item v = Inr v"
  by (rule scaled_unit) (simp_all add: far_fields roi_fields)

lemma isqrt_values: "isqrt 4194304 = 2048" "isqrt 1858304 = 1363"
  by (simp_all add: isqrt.simps Let_def)

lemma far_search:
  "poi_search area_lib 512 2048 2048 (4000, 3000, 100, 100) 0 [4000, 3000]
     = Inr (Some (4000, 3000, - 1952, - 952), 0, [])"
  by (simp add: poi_search.simps poi_expand_def randint_def and_then_def area_lib_def isqrt_values)

lemma far_factors:
  "py_truediv 448 (- 1952) = Inr (- (8268904233860583 / 36028797018963968))"
  "py_truediv 576 (- 952) = Inr (- (5449734002868499 / 9007199254740992))"
  by (rule truediv_value [where k = "- 3" and n = "- 8268904233860583"], simp_all add: round_even_def)
    (rule truediv_value [where k = "- 1" and n = "- 5449734002868499"], simp_all add: round_even_def)

lemma far_products:
  "py_mul 2048 (- (8268904233860583 / 36028797018963968)) = Inr (- (8268904233860583 / 17592186044416))"
  "py_mul 4000 (- (8268904233860583 / 36028797018963968)) = Inr (- (2018775447719869 / 2199023255552))"
  "py_mul 3000 (- (8268904233860583 / 36028797018963968)) = Inr (- (6056326343159607 / 8796093022208))"
  by (rule mul_value [where k = 8 and n = "- 8268904233860583"], simp_all add: round_even_def)
    (rule mul_value [where k = 9 and n = "- 8075101790879476"], simp_all add: round_even_def,
     rule mul_value [where k = 9 and n = "- 6056326343159607"], simp_all add: round_even_def)

lemma far_helpers:
  "get_resolution area_lib 2048 2048 = Some 2048"
  "get_bucket_for_image_size area_lib (- 1952) (- 952) 512 64 = Some (448, 576)"
  by (simp_all add: area_lib_def side_lib_def isqrt_values)

lemma far_item_setup:
  "setup_item area_lib roi_config far_item [4000, 3000] = Inr (far_item_done, [])"
proof -
  have "setup_poi_bucket area_lib far_item [4000, 3000] = Inr (True, far_item_done, [])"
    by (simp add: setup_poi_bucket_def scaled_far far_fields roi_fields far_search
        and_then_def helper_def far_factors far_products py_int_def py_ceil_def
        far_helpers far_item_done_def)
  then show ?thesis
    by (simp add: setup_item_def far_fields scaled_far and_then_def)
qed

lemma far_key:
  "bucket_key far_item_done = ''448x576''"
  "crop_width far_item_done = 448" "crop_height far_item_done = 576"
  by (simp_all add: bucket_key_def far_item_done_def str_int_512)

text \<open>
  Claim C3, as stated, fails.  The caption file may name a region of interest that lies
  outside the image: for a 2048 by 2048 image and the region at (4000, 3000) the search
  can return a window of negative width and height, which a helper that measures the
  number of pixels accepts.  \<^verbatim>\<open>setup_buckets\<close> then leaves the item with
  \<open>scale_to_height = -470\<close> and \<open>crop_y + crop_height = -112\<close>; the code prints
  \<^verbatim>\<open>size mismatch\<close> and goes on.
\<close>

theorem setup_buckets_inconsistent:
  "setup_buckets area_lib far_dataset [4000, 3000] =
     Inr (far_dataset\<lparr>
        file_list := [far_item_done],
        buckets := [(''448x576'', \<lparr>bucket_width = 448, bucket_height = 576, file_list_idx = [0]\<rparr>)],
        batch_indices := [[0]]\<rparr>, [])
   \<and> \<not> consistent_geometry far_item_done"
proof -
  have "setup_buckets_loop area_lib roi_config 0 [far_item] [] [4000, 3000] =
     Inr ([far_item_done],
       [(''448x576'', \<lparr>bucket_width = 448, bucket_height = 576, file_list_idx = [0]\<rparr>)], [])"
    by (simp add: far_item_setup and_then_def add_to_bucket_def far_key)
  then have "setup_buckets area_lib far_dataset [4000, 3000] =
     Inr (far_dataset\<lparr>
        file_list := [far_item_done],
        buckets := [(''448x576'', \<lparr>bucket_width = 448, bucket_height = 576, file_list_idx = [0]\<rparr>)],
        batch_indices := [[0]]\<rparr>, [])"
    by (simp add: setup_buckets_def far_dataset_def and_then_def
        shuffle_def batches_of_def chunks.simps del: setup_buckets_loop.simps)
  moreover have "\<not> consistent_geometry far_item_done"
    by (simp add: consistent_geometry_def far_item_done_def)
  ultimately show ?thesis by simp
qed

text \<open>
  Claim C3, amended.  After \<^verbatim>\<open>setup_buckets\<close> has rebuilt the buckets, every item
  satisfies \<open>scale_to_width \<ge> crop_x + crop_width\<close> and
  \<open>scale_to_height \<ge> crop_y + crop_height\<close>, on the standard path and on the
  point-of-interest path, provided the items are well formed (scaled sizes between 1
  and \<open>2\<^sup>2\<^sup>4\<close>; a region of interest that starts inside the scaled image and has
  positive scaled width and height) and the absent helper returns buckets of sizes
  between 1 and \<open>2\<^sup>2\<^sup>4\<close>.  The sizes are computed with doubles, as in the code.
\<close>

theorem setup_buckets_consistent:
  assumes ok: "setup_buckets lib self g = Inr (self', g')"
    and "rebuilds self"
    and wf: "\<forall>it \<in> set (file_list self). well_formed_item it"
    and pos: "buckets_in_range lib"
  shows "\<forall>it' \<in> set (file_list self'). consistent_geometry it'"
proof -
  from ok \<open>rebuilds self\<close> obtain items bs g1 where
    loop: "setup_buckets_loop lib (ds_config self) 0 (file_list self) [] g = Inr (items, bs, g1)"
    and "file_list self' = items"
    by (auto simp: setup_buckets_def rebuilds_def and_then_def split: sum.splits prod.splits if_splits)
  with setup_buckets_loop_consistent [OF loop wf pos] show ?thesis by simp
qed

theorem setup_buckets_consistent_witness:
  "setup_buckets side_lib example_dataset [] =
     Inr (example_dataset\<lparr>
        file_list := [example_item_done, roi_item_done],
        buckets := [(''576x448'', \<lparr>bucket_width = 576, bucket_height = 448, file_list_idx = [0]\<rparr>),
                    (''512x512'', \<lparr>bucket_width = 512, bucket_height = 512, file_list_idx = [Suc 0]\<rparr>)],
        batch_indices := [[0], [Suc 0]]\<rparr>, [])
   \<and> rebuilds example_dataset
   \<and> well_formed_item example_item \<and> well_formed_item roi_item
   \<and> buckets_in_range side_lib
   \<and> consistent_geometry example_item_done \<and> consistent_geometry roi_item_done"
proof -
  have r: "rebuilds example_dataset"
    by (simp add: rebuilds_def example_dataset_def)
  have w: "\<forall>it \<in> set (file_list example_dataset). well_formed_item it"
    by (simp add: example_dataset_def example_well_formed)
  from setup_buckets_consistent [OF example_dataset_setup r w side_lib_in_range]
  have "consistent_geometry example_item_done \<and> consistent_geometry roi_item_done" by simp
  with r example_well_formed side_lib_in_range example_dataset_setup show ?thesis by simp
qed

section \<open>The standard path as the loop takes it\<close>

lemma wide_fields:
  "width wide_item = 2000" "height wide_item = 1500" "dataset_config wide_item = example_config"
  "\<not> has_point_of_interest wide_item"
  "resolution random_config = 512" "bucket_tolerance random_config = 64" "random_crop random_config"
  by (simp_all add: wide_item_def example_item_def random_config_def example_config_def)

lemma scaled_wide: "\<bar>v\<bar> < 2 ^ 53 \<Longrightarrow> scaled wide_item v = Inr v"
  by (rule scaled_unit) (simp_all add: wide_fields example_fields)

lemma wide_factors:
  "py_truediv 576 2000 = Inr (5188146770730811 / 18014398509481984)"
  "py_truediv 448 1500 = Inr (5380300354831953 / 18014398509481984)"
  by (rule truediv_value [where k = "- 2" and n = 5188146770730811], simp_all add: round_even_def)
    (rule truediv_value [where k = "- 2" and n = 5380300354831953], simp_all add: round_even_def)

lemma wide_products:
  "py_mul 2000 (5380300354831953 / 18014398509481984) = Inr (5254199565265579 / 8796093022208)"
  "py_mul 1500 (5380300354831953 / 18014398509481984) = Inr (7881299347898369 / 17592186044416)"
  by (rule mul_value [where k = 9 and n = 5254199565265579], simp_all add: round_even_def)
    (rule mul_value [where k = 8 and n = 7881299347898369], simp_all add: round_even_def)

lemma landscape_bucket: "get_bucket_for_image_size landscape_lib w h r d = Some (576, 448)"
  by (simp add: landscape_lib_def)

lemma wide_run:
  "setup_item landscape_lib example_config wide_item [] =
     Inr (wide_item\<lparr>scale_to_width := 598, scale_to_height := 449,
            crop_height := 448, crop_width := 576, crop_x := 11, crop_y := 0\<rparr>, [])"
  by (simp add: setup_item_def wide_fields scaled_wide and_then_def setup_standard_bucket_def
      landscape_bucket helper_def wide_factors wide_products py_ceil_def example_fields
      crop_offsets_def py_truediv_half py_int_def)

lemma wide_spec: "spec_enlarged 2000 1500 576 448 = (598, 448)"
  by (simp add: spec_enlarged_def spec_max_factor_def)

text \<open>
  Claim C5, as stated, fails: the sizes are computed with doubles.  For an image of 2000
  by 1500 pixels and the bucket 576 by 448 the larger factor is \<open>448 / 1500\<close>; its
  double, multiplied by 1500 and rounded again, is just above 448, so the code sets
  \<^verbatim>\<open>scale_to_height\<close> to 449, where \<open>\<lceil>1500 * (448 / 1500)\<rceil>\<close> is 448.
\<close>

theorem standard_bucket_counterexample:
  "scaled wide_item (width wide_item) = Inr 2000
   \<and> scaled wide_item (height wide_item) = Inr 1500
   \<and> get_bucket_for_image_size landscape_lib 2000 1500 (resolution example_config)
        (bucket_tolerance example_config) = Some (576, 448)
   \<and> setup_item landscape_lib example_config wide_item [] =
        Inr (wide_item\<lparr>scale_to_width := 598, scale_to_height := 449,
               crop_height := 448, crop_width := 576, crop_x := 11, crop_y := 0\<rparr>, [])
   \<and> spec_enlarged 2000 1500 576 448 = (598, 448)"
  by (simp add: wide_fields scaled_wide landscape_bucket wide_run wide_spec)

text \<open>
  Claim C5, amended.  An item takes the standard path when it has no point of interest
  or \<^verbatim>\<open>setup_poi_bucket\<close> returned \<^verbatim>\<open>False\<close>.  For scaled sizes \<open>w\<close>, \<open>h\<close> and a
  bucket \<open>bw \<times> bh\<close>, all between 1 and \<open>2\<^sup>2\<^sup>4\<close>, the loop body then sets
  \<^verbatim>\<open>scale_to_width\<close> and \<^verbatim>\<open>scale_to_height\<close> to the sizes of \<open>double_enlarged\<close>:
  the larger of the doubles nearest to \<open>bw / w\<close> and \<open>bh / h\<close>, multiplied by the size
  and rounded to a double, then rounded up.  Both sizes reach the bucket, and each is
  within one pixel of the size \<open>\<lceil>w * m\<rceil>\<close>, \<open>\<lceil>h * m\<rceil>\<close> of exact arithmetic.  The crop
  has the bucket's size.  With \<^verbatim>\<open>random_crop\<close> the two offsets are the next two draws
  of the stream reduced to \<open>[0, scaled - bucket]\<close>, so every offset of the range
  arises; otherwise each offset is \<open>\<lfloor>(scaled - bucket) / 2\<rfloor>\<close>.
\<close>

theorem standard_bucket_geometry:
  assumes w: "scaled file_item (width file_item) = Inr w" "in_range w"
    and h: "scaled file_item (height file_item) = Inr h" "in_range h"
    and std: "(if has_point_of_interest file_item then setup_poi_bucket lib file_item g
               else Inr (False, file_item, g)) = Inr (False, file_item1, g1)"
    and bucket: "get_bucket_for_image_size lib w h (resolution cfg) (bucket_tolerance cfg) = Some (bw, bh)"
      "in_range bw" "in_range bh"
  shows "\<exists>file_item' g'.
            setup_item lib cfg file_item g = Inr (file_item', g')
          \<and> (scale_to_width file_item', scale_to_height file_item') = double_enlarged w h bw bh
          \<and> bw \<le> scale_to_width file_item' \<and> bh \<le> scale_to_height file_item'
          \<and> \<bar>scale_to_width file_item' - fst (spec_enlarged w h bw bh)\<bar> \<le> 1
          \<and> \<bar>scale_to_height file_item' - snd (spec_enlarged w h bw bh)\<bar> \<le> 1
          \<and> crop_width file_item' = bw \<and> crop_height file_item' = bh
          \<and> (if random_crop cfg
              then crop_x file_item' = int (fst (draw g1) mod nat (scale_to_width file_item' - bw + 1))
                 \<and> crop_y file_item' =
                      int (fst (draw (snd (draw g1))) mod nat (scale_to_height file_item' - bh + 1))
                 \<and> 0 \<le> crop_x file_item' \<and> crop_x file_item' \<le> scale_to_width file_item' - bw
                 \<and> 0 \<le> crop_y file_item' \<and> crop_y file_item' \<le> scale_to_height file_item' - bh
                 \<and> g' = snd (draw (snd (draw g1)))
              else crop_x file_item' = (scale_to_width file_item' - bw) div 2
                 \<and> crop_y file_item' = (scale_to_height file_item' - bh) div 2
                 \<and> g' = g1)"
proof -
  from std have "file_item1 = file_item"
    by (auto dest: setup_poi_bucket_False split: if_splits)
  with std w(1) h(1)
  have "setup_item lib cfg file_item g = setup_standard_bucket lib cfg w h file_item g1"
    by (simp add: setup_item_def and_then_def)
  with standard_bucket_result [OF w(2) h(2) bucket(2,3,1), of file_item g1]
  show ?thesis by simp
qed

theorem standard_bucket_geometry_witness:
  "(\<exists>file_item' g'.
       setup_item landscape_lib random_config wide_item [5, 7] = Inr (file_item', g')
     \<and> scale_to_width file_item' = 598 \<and> scale_to_height file_item' = 449
     \<and> crop_width file_item' = 576 \<and> crop_height file_item' = 448
     \<and> crop_x file_item' = 5 \<and> crop_y file_item' = 1 \<and> g' = [])
   \<and> double_enlarged 2000 1500 576 448 = (598, 449)
   \<and> spec_enlarged 2000 1500 576 448 = (598, 448)
   \<and> (\<exists>file_item' g'.
       setup_item landscape_lib example_config wide_item [] = Inr (file_item', g')
     \<and> crop_x file_item' = 11 \<and> crop_y file_item' = 0 \<and> g' = [])"
proof -
  have s: "scaled wide_item (width wide_item) = Inr 2000" "scaled wide_item (height wide_item) = Inr 1500"
    by (simp_all add: wide_fields scaled_wide)
  have r: "in_range 2000" "in_range 1500" "in_range 576" "in_range 448"
    by (simp_all add: in_range_def)
  have p: "(if has_point_of_interest wide_item then setup_poi_bucket landscape_lib wide_item g
            else Inr (False, wide_item, g)) = Inr (False, wide_item, g)" for g
    by (simp add: wide_fields)
  note centre = standard_bucket_geometry [where g = "[]" and cfg = example_config,
      OF s(1) r(1) s(2) r(2) p landscape_bucket r(3,4)]
  note random = standard_bucket_geometry [where g = "[5, 7]" and cfg = random_config,
      OF s(1) r(1) s(2) r(2) p landscape_bucket r(3,4)]
  from centre wide_run have e: "double_enlarged 2000 1500 576 448 = (598, 449)"
    by auto
  from centre e have c: "\<exists>file_item' g'.
       setup_item landscape_lib example_config wide_item [] = Inr (file_item', g')
     \<and> crop_x file_item' = 11 \<and> crop_y file_item' = 0 \<and> g' = []"
    by (auto simp: example_fields)
  from random e have "\<exists>file_item' g'.
       setup_item landscape_lib random_config wide_item [5, 7] = Inr (file_item', g')
     \<and> scale_to_width file_item' = 598 \<and> scale_to_height file_item' = 449
     \<and> crop_width file_item' = 576 \<and> crop_height file_item' = 448
     \<and> crop_x file_item' = 5 \<and> crop_y file_item' = 1 \<and> g' = []"
    by (auto simp: wide_fields)
  with c e wide_spec show ?thesis by simp
qed

section \<open>Buckets hold items of one crop size\<close>

lemma digit_in: "d < 10 \<Longrightarrow> digit d \<in> set ''0123456789''"
  unfolding digit_def by (rule nth_mem) simp

lemma digit_inj:
  assumes "a < 10" "b < 10" "digit a = digit b"
  shows "a = b"
proof -
  have "distinct ''0123456789''" by simp
  moreover from assms have "a < length ''0123456789''" "b < length ''0123456789''" by simp_all
  ultimately show ?thesis
    using assms(3) unfolding digit_def by (simp only: nth_eq_iff_index_eq)
qed

lemma str_nat_nonempty: "str_nat n \<noteq> []"
  by (subst str_nat.simps) simp

lemma str_nat_digits: "set (str_nat n) \<subseteq> set ''0123456789''"
proof (induction n rule: str_nat.induct)
  case (1 n)
  show ?case
  proof (cases "n < 10")
    case True
    with digit_in [of n] show ?thesis by (subst str_nat.simps) simp
  next
    case False
    have "n mod 10 < 10" by simp
    from digit_in [OF this] "1.IH" [OF False] False show ?thesis
      by (subst str_nat.simps) simp
  qed
qed

lemma str_nat_inj: "str_nat m = str_nat n \<Longrightarrow> m = n"
proof (induction m arbitrary: n rule: str_nat.induct)
  case (1 m)
  show ?case
  proof (cases "m < 10")
    case m: True
    show ?thesis
    proof (cases "n < 10")
      case True
      with m "1.prems" have "digit m = digit n"
        by (simp add: str_nat.simps [of m] str_nat.simps [of n])
      with m True show ?thesis by (rule digit_inj)
    next
      case False
      with m "1.prems" have "[digit m] = str_nat (n div 10) @ [digit (n mod 10)]"
        by (simp add: str_nat.simps [of m] str_nat.simps [of n])
      then have "str_nat (n div 10) = []" by simp
      with str_nat_nonempty show ?thesis by blast
    qed
  next
    case m: False
    show ?thesis
    proof (cases "n < 10")
      case True
      with m "1.prems" have "str_nat (m div 10) @ [digit (m mod 10)] = [digit n]"
        by (simp add: str_nat.simps [of m] str_nat.simps [of n])
      then have "str_nat (m div 10) = []" by simp
      with str_nat_nonempty show ?thesis by blast
    next
      case False
      with m "1.prems" have "str_nat (m div 10) @ [digit (m mod 10)] = str_nat (n div 10) @ [digit (n mod 10)]"
        by (simp add: str_nat.simps [of m] str_nat.simps [of n])
      then have a: "str_nat (m div 10) = str_nat (n div 10)" and b: "digit (m mod 10) = digit (n mod 10)"
        by simp_all
      from "1.IH" [OF m a] have "m div 10 = n div 10" .
      moreover have "m mod 10 = n mod 10"
        by (rule digit_inj [OF _ _ b]) simp_all
      ultimately show ?thesis by (metis div_mult_mod_eq)
    qed
  qed
qed

lemma str_nat_avoids:
  assumes "c \<notin> set ''0123456789''"
  shows "c \<notin> set (str_nat n)"
  using assms str_nat_digits [of n] by (rule contra_subsetD [rotated])

lemma str_int_no_x: "CHR ''x'' \<notin> set (str_int i)"
proof -
  have x: "CHR ''x'' \<notin> set ''0123456789''" by simp
  show ?thesis
    using str_nat_avoids [OF x, of "nat i"] str_nat_avoids [OF x, of "nat (- i)"]
    by (simp add: str_int_def)
qed

lemma str_int_inj: "str_int a = str_int b \<Longrightarrow> a = b"
proof -
  assume eq: "str_int a = str_int b"
  have "CHR ''-'' \<notin> set ''0123456789''" by simp
  then have nd: "CHR ''-'' \<notin> set (str_nat n)" for n
    by (rule str_nat_avoids)
  show ?thesis
  proof (cases "a < 0")
    case a: True
    show ?thesis
    proof (cases "b < 0")
      case True
      with a eq have "str_nat (nat (- a)) = str_nat (nat (- b))" by (simp add: str_int_def)
      then have "nat (- a) = nat (- b)" by (rule str_nat_inj)
      with a True show ?thesis by simp
    next
      case False
      with a eq have "CHR ''-'' # str_nat (nat (- a)) = str_nat (nat b)" by (simp add: str_int_def)
      then have "CHR ''-'' \<in> set (str_nat (nat b))" by (metis list.set_intros(1))
      with nd show ?thesis by blast
    qed
  next
    case a: False
    show ?thesis
    proof (cases "b < 0")
      case True
      with a eq have "str_nat (nat a) = CHR ''-'' # str_nat (nat (- b))" by (simp add: str_int_def)
      then have "CHR ''-'' \<in> set (str_nat (nat a))" by (metis list.set_intros(1))
      with nd show ?thesis by blast
    next
      case False
      with a eq have "str_nat (nat a) = str_nat (nat b)" by (simp add: str_int_def)
      then have "nat a = nat b" by (rule str_nat_inj)
      with a False show ?thesis by simp
    qed
  qed
qed

lemma takeWhile_separator: "c \<notin> set a \<Longrightarrow> takeWhile (\<lambda>x. x \<noteq> c) (a @ c # b) = a"
  by (induction a) auto

lemma split_at_separator:
  assumes "a1 @ c # b1 = a2 @ c # b2" "c \<notin> set a1" "c \<notin> set a2"
  shows "a1 = a2 \<and> b1 = b2"
proof -
  have "a1 = takeWhile (\<lambda>x. x \<noteq> c) (a1 @ c # b1)"
    by (rule takeWhile_separator [symmetric]) (rule assms(2))
  also have "\<dots> = takeWhile (\<lambda>x. x \<noteq> c) (a2 @ c # b2)"
    by (simp only: assms(1))
  also have "\<dots> = a2"
    by (rule takeWhile_separator) (rule assms(3))
  finally have "a1 = a2" .
  with assms(1) show ?thesis by simp
qed

lemma bucket_key_inj:
  assumes "str_int a @ ''x'' @ str_int b = str_int c @ ''x'' @ str_int d"
  shows "a = c \<and> b = d"
proof -
  from assms have "str_int a @ CHR ''x'' # str_int b = str_int c @ CHR ''x'' # str_int d" by simp
  from split_at_separator [OF this str_int_no_x str_int_no_x]
  have "str_int a = str_int c" "str_int b = str_int d" by simp_all
  then show ?thesis by (simp add: str_int_inj)
qed

lemma map_of_add_to_bucket:
  "map_of (add_to_bucket file_item idx bs) =
     (map_of bs)(bucket_key file_item \<mapsto>
        (case map_of bs (bucket_key file_item) of
           None \<Rightarrow> \<lparr>bucket_width = crop_width file_item, bucket_height = crop_height file_item,
                      file_list_idx = [idx]\<rparr>
         | Some b \<Rightarrow> b\<lparr>file_list_idx := file_list_idx b @ [idx]\<rparr>))"
proof (cases "bucket_key file_item \<in> set (map fst bs)")
  case True
  then obtain b where "map_of bs (bucket_key file_item) = Some b"
    by (metis map_of_eq_None_iff not_None_eq set_map)
  with True show ?thesis
    by (simp add: add_to_bucket_def Let_def map_of_map_entry)
next
  case False
  then have "map_of bs (bucket_key file_item) = None"
    by (simp add: map_of_eq_None_iff)
  with False show ?thesis
    by (auto simp: add_to_bucket_def Let_def map_of_map_entry fun_eq_iff map_add_def
        split: option.splits)
qed

lemma bucket_inv_add:
  assumes inv: "bucket_inv items bs"
  shows "bucket_inv (items @ [file_item]) (add_to_bucket file_item (length items) bs)"
  unfolding bucket_inv_def
proof (intro allI impI)
  fix key b
  assume look: "map_of (add_to_bucket file_item (length items) bs) key = Some b"
  show "key = str_int (bucket_width b) @ ''x'' @ str_int (bucket_height b)
      \<and> (\<forall>i \<in> set (file_list_idx b).
            i < length (items @ [file_item])
          \<and> crop_width ((items @ [file_item]) ! i) = bucket_width b
          \<and> crop_height ((items @ [file_item]) ! i) = bucket_height b)"
  proof (cases "key = bucket_key file_item")
    case False
    with look have "map_of bs key = Some b"
      by (simp add: map_of_add_to_bucket)
    with inv have "key = str_int (bucket_width b) @ ''x'' @ str_int (bucket_height b)"
      and old: "\<forall>i \<in> set (file_list_idx b).
            i < length items \<and> crop_width (items ! i) = bucket_width b
          \<and> crop_height (items ! i) = bucket_height b"
      by (auto simp: bucket_inv_def)
    then show ?thesis by (auto simp: nth_append)
  next
    case key: True
    show ?thesis
    proof (cases "map_of bs (bucket_key file_item)")
      case None
      with look key have "b = \<lparr>bucket_width = crop_width file_item,
          bucket_height = crop_height file_item, file_list_idx = [length items]\<rparr>"
        by (simp add: map_of_add_to_bucket)
      with key show ?thesis by (simp add: bucket_key_def)
    next
      case (Some b0)
      with look key have b: "b = b0\<lparr>file_list_idx := file_list_idx b0 @ [length items]\<rparr>"
        by (simp add: map_of_add_to_bucket)
      from inv Some have k0: "bucket_key file_item = str_int (bucket_width b0) @ ''x'' @ str_int (bucket_height b0)"
        and old: "\<forall>i \<in> set (file_list_idx b0).
            i < length items \<and> crop_width (items ! i) = bucket_width b0
          \<and> crop_height (items ! i) = bucket_height b0"
        by (auto simp: bucket_inv_def)
      from k0 have "crop_width file_item = bucket_width b0 \<and> crop_height file_item = bucket_height b0"
        unfolding bucket_key_def by (rule bucket_key_inj)
      with old k0 key show ?thesis
        by (auto simp: b nth_append)
    qed
  qed
qed

lemma setup_buckets_loop_inv:
  assumes "setup_buckets_loop lib cfg (length done) items bs g = Inr (items', bs', g')"
    and "bucket_inv done bs"
  shows "bucket_inv (done @ items') bs'"
  using assms
proof (induction items arbitrary: "done" bs g items' bs' g')
  case Nil
  then show ?case by simp
next
  case (Cons file_item rest)
  from Cons.prems(1) obtain file_item' g1 rest' where
    item: "setup_item lib cfg file_item g = Inr (file_item', g1)"
    and loop: "setup_buckets_loop lib cfg (Suc (length done)) rest
        (add_to_bucket file_item' (length done) bs) g1 = Inr (rest', bs', g')"
    and items': "items' = file_item' # rest'"
    by (auto simp: and_then_def split: sum.splits)
  from bucket_inv_add [OF Cons.prems(2)]
  have "bucket_inv (done @ [file_item']) (add_to_bucket file_item' (length done) bs)" .
  moreover from loop have "setup_buckets_loop lib cfg (length (done @ [file_item'])) rest
        (add_to_bucket file_item' (length done) bs) g1 = Inr (rest', bs', g')" by simp
  ultimately have "bucket_inv ((done @ [file_item']) @ rest') bs'"
    by (rule Cons.IH [rotated])
  then show ?case by (simp add: items')
qed

lemma shuffle_from_mset:
  "n < length xs \<or> n = 0 \<Longrightarrow> mset (fst (shuffle_from n xs g)) = mset xs"
proof (induction n arbitrary: xs g)
  case 0
  then show ?case by simp
next
  case (Suc n)
  obtain r g1 where d: "draw g = (r, g1)" by (cases "draw g")
  define j where "j = r mod (Suc n + 1)"
  from Suc.prems have n: "Suc n < length xs" by simp
  have j: "j < length xs"
  proof -
    have "j < Suc n + 1" unfolding j_def by (rule mod_less_divisor) simp
    with n show ?thesis by simp
  qed
  have "mset (xs[Suc n := xs ! j, j := xs ! Suc n]) = mset xs"
    using j n by (rule mset_swap)
  moreover have "mset (fst (shuffle_from n (xs[Suc n := xs ! j, j := xs ! Suc n]) g1))
      = mset (xs[Suc n := xs ! j, j := xs ! Suc n])"
    using n by (intro Suc.IH) simp
  ultimately show ?case
    by (simp add: d j_def Let_def)
qed

lemma shuffle_mset: "mset (fst (shuffle xs g)) = mset xs"
  unfolding shuffle_def by (rule shuffle_from_mset) (cases xs, simp_all)

lemma shuffle_buckets_lookup:
  assumes "map_of (fst (shuffle_buckets bs g)) key = Some b'"
  shows "\<exists>b. map_of bs key = Some b \<and> bucket_width b' = bucket_width b
     \<and> bucket_height b' = bucket_height b \<and> set (file_list_idx b') = set (file_list_idx b)"
  using assms
proof (induction bs arbitrary: g)
  case Nil
  then show ?case by simp
next
  case (Cons kb bs)
  obtain k b0 where kb: "kb = (k, b0)" by (cases kb)
  obtain idxs g1 where s: "shuffle (file_list_idx b0) g = (idxs, g1)"
    by (cases "shuffle (file_list_idx b0) g")
  obtain bs1 g2 where r: "shuffle_buckets bs g1 = (bs1, g2)"
    by (cases "shuffle_buckets bs g1")
  from shuffle_mset [of "file_list_idx b0" g] s have "mset idxs = mset (file_list_idx b0)" by simp
  then have set: "set idxs = set (file_list_idx b0)" by (rule mset_eq_setD)
  have step: "fst (shuffle_buckets (kb # bs) g) = (k, b0\<lparr>file_list_idx := idxs\<rparr>) # bs1"
    by (simp add: kb s r)
  have bs1: "bs1 = fst (shuffle_buckets bs g1)"
    by (simp add: r)
  show ?case
  proof (cases "key = k")
    case True
    with Cons.prems have "b' = b0\<lparr>file_list_idx := idxs\<rparr>"
      by (simp only: step map_of.simps fst_conv snd_conv fun_upd_same option.inject)
    with True kb set show ?thesis by simp
  next
    case False
    from Cons.prems have "map_of ((k, b0\<lparr>file_list_idx := idxs\<rparr>) # bs1) key = Some b'"
      by (simp only: step)
    with False have "map_of bs1 key = Some b'" by simp
    then have "map_of (fst (shuffle_buckets bs g1)) key = Some b'"
      by (simp only: bs1)
    from Cons.IH [OF this] obtain b where "map_of bs key = Some b" "bucket_width b' = bucket_width b"
      "bucket_height b' = bucket_height b" "set (file_list_idx b') = set (file_list_idx b)"
      by blast
    with False kb show ?thesis by simp
  qed
qed

text \<open>
  Claim C4.  After \<^verbatim>\<open>setup_buckets\<close> has rebuilt the buckets, any two indices of one
  bucket are indices of the file list, their items have the same \<^verbatim>\<open>crop_width\<close> and
  the same \<^verbatim>\<open>crop_height\<close>, and these are the bucket's own width and height.  The
  bucket is the value stored under a key of the dictionary \<^verbatim>\<open>self.buckets\<close>.
\<close>

theorem same_bucket_same_crop:
  assumes ok: "setup_buckets lib self g = Inr (self', g')"
    and "rebuilds self"
    and look: "map_of (buckets self') key = Some b"
    and i: "i \<in> set (file_list_idx b)" and j: "j \<in> set (file_list_idx b)"
  shows "i < length (file_list self') \<and> j < length (file_list self')
       \<and> crop_width (file_list self' ! i) = crop_width (file_list self' ! j)
       \<and> crop_height (file_list self' ! i) = crop_height (file_list self' ! j)
       \<and> bucket_width b = crop_width (file_list self' ! i)
       \<and> bucket_height b = crop_height (file_list self' ! i)"
proof -
  from ok \<open>rebuilds self\<close> obtain items bs g1 where
    loop: "setup_buckets_loop lib (ds_config self) 0 (file_list self) [] g = Inr (items, bs, g1)"
    and fl: "file_list self' = items"
    and bk: "buckets self' = fst (shuffle_buckets bs g1)"
    by (auto simp: setup_buckets_def rebuilds_def and_then_def split: sum.splits prod.splits if_splits)
  have "bucket_inv [] []" by (simp add: bucket_inv_def)
  with loop have "bucket_inv ([] @ items) bs"
    by (intro setup_buckets_loop_inv [where ?done = "[]"]) simp_all
  then have inv: "bucket_inv items bs" by simp
  from look bk obtain b0 where "map_of bs key = Some b0"
    and same: "bucket_width b = bucket_width b0" "bucket_height b = bucket_height b0"
      "set (file_list_idx b) = set (file_list_idx b0)"
    using shuffle_buckets_lookup [of bs g1 key b] by auto
  with inv have "\<forall>i \<in> set (file_list_idx b0).
            i < length items \<and> crop_width (items ! i) = bucket_width b0
          \<and> crop_height (items ! i) = bucket_height b0"
    by (auto simp: bucket_inv_def)
  with i j same fl show ?thesis by auto
qed

lemma twin_fields:
  "width twin_item = 1600" "height twin_item = 1200" "dataset_config twin_item = example_config"
  "\<not> has_point_of_interest twin_item"
  by (simp_all add: twin_item_def example_item_def)

lemma scaled_twin: "\<bar>v\<bar> < 2 ^ 53 \<Longrightarrow> scaled twin_item v = Inr v"
  by (rule scaled_unit) (simp_all add: twin_fields example_fields)

lemma twin_item_setup:
  "setup_item side_lib roi_config twin_item g = Inr (twin_item_done, g)"
  by (simp add: setup_item_def twin_fields scaled_twin and_then_def landscape_run
      side_lib_def twin_item_done_def)

lemma twin_keys:
  "bucket_key twin_item_done = ''576x448''"
  "crop_width twin_item_done = 576" "crop_height twin_item_done = 448"
  by (simp_all add: bucket_key_def twin_item_done_def str_int_512)

lemma twin_buckets:
  "add_to_bucket twin_item_done (Suc 0) (add_to_bucket example_item_done 0 []) =
     [(''576x448'', \<lparr>bucket_width = 576, bucket_height = 448, file_list_idx = [0, Suc 0]\<rparr>)]"
  by (simp add: add_to_bucket_def done_keys twin_keys)

lemma twin_loop:
  "setup_buckets_loop side_lib roi_config 0 [example_item, twin_item] [] [] =
     Inr ([example_item_done, twin_item_done],
       [(''576x448'', \<lparr>bucket_width = 576, bucket_height = 448, file_list_idx = [0, Suc 0]\<rparr>)], [])"
  by (simp add: example_item_setup twin_item_setup and_then_def twin_buckets)

lemma twin_dataset_setup:
  "setup_buckets side_lib twin_dataset [] =
     Inr (twin_dataset\<lparr>
        file_list := [example_item_done, twin_item_done],
        buckets := [(''576x448'', \<lparr>bucket_width = 576, bucket_height = 448, file_list_idx = [Suc 0, 0]\<rparr>)],
        batch_indices := [[Suc 0, 0]]\<rparr>, [])"
  by (simp add: setup_buckets_def twin_dataset_def twin_loop and_then_def
      shuffle_def batches_of_def chunks.simps numeral_2_eq_2 del: setup_buckets_loop.simps)

theorem same_bucket_same_crop_witness:
  "crop_width example_item_done = crop_width twin_item_done
   \<and> crop_height example_item_done = crop_height twin_item_done
   \<and> 576 = crop_width example_item_done \<and> 448 = crop_height example_item_done"
proof -
  have r: "rebuilds twin_dataset"
    by (simp add: rebuilds_def twin_dataset_def)
  from same_bucket_same_crop [OF twin_dataset_setup r, of "''576x448''"
      "\<lparr>bucket_width = 576, bucket_height = 448, file_list_idx = [Suc 0, 0]\<rparr>" 0 "Suc 0"]
  show ?thesis by simp
qed

section \<open>The latent cache path\<close>

lemma paths:
  "basename ''/data/cat.png'' = ''cat.png''" "dirname ''/data/cat.png'' = ''/data''"
  "basename ''/other/cat.png'' = ''cat.png''" "dirname ''/other/cat.png'' = ''/other''"
  "splitext_root ''cat.png'' = ''cat''"
  by (simp_all add: basename_def dirname_def splitext_root_def Let_def)

lemma done_item_fields:
  "path example_item_done = ''/data/cat.png''" "scale_to_width example_item_done = 598"
  "scale_to_height example_item_done = 448" "crop_x example_item_done = 11"
  "crop_y example_item_done = 0" "latent_space_version example_item_done = ''sd1''"
  "latent_version example_item_done = 1" "\<not> flip_x example_item_done" "\<not> flip_y example_item_done"
  "latent_path example_item_done = None"
  by (simp_all add: example_item_done_def example_item_def)

lemma sorted_keys_example:
  "sort_key fst (get_latent_info_dict example_item_done) =
    [(''crop_height'', JInt 448), (''crop_width'', JInt 576), (''crop_x'', JInt 11),
     (''crop_y'', JInt 0), (''filename'', JStr ''cat.png''),
     (''latent_space_version'', JStr ''sd1''), (''latent_version'', JInt 1),
     (''scale_to_height'', JInt 448), (''scale_to_width'', JInt 598)]"
  by (simp add: get_latent_info_dict_def done_item_fields done_keys paths)

lemma moved_item_fields:
  "path moved_item = ''/other/cat.png''" "scale_to_width moved_item = 598"
  "scale_to_height moved_item = 448" "crop_x moved_item = 11"
  "crop_y moved_item = 0" "crop_width moved_item = 576" "crop_height moved_item = 448"
  "latent_space_version moved_item = ''sd1''"
  "latent_version moved_item = 1" "\<not> flip_x moved_item" "\<not> flip_y moved_item"
  "latent_path moved_item = None"
  by (simp_all add: moved_item_def example_item_done_def example_item_def)

lemma moved_dict:
  "get_latent_info_dict moved_item = get_latent_info_dict example_item_done"
  by (simp add: get_latent_info_dict_def done_item_fields done_keys moved_item_fields paths)

lemma example_latent_path:
  "compute_latent_path plain_stdlib example_item_done =
     ''/data/_latent_cache/cat_{'' @
       render_items (sort_key fst (get_latent_info_dict example_item_done)) @ ''}.safetensors''"
  by (simp add: compute_latent_path_def dumps_sort_keys_def plain_stdlib_def done_item_fields paths
      path_join_def Let_def sorted_keys_example render_value_def str_int_512 str_int_def
      str_nat.simps digit_def)

lemma moved_latent_path:
  "compute_latent_path plain_stdlib moved_item =
     ''/other/_latent_cache/cat_{'' @
       render_items (sort_key fst (get_latent_info_dict example_item_done)) @ ''}.safetensors''"
  by (simp add: compute_latent_path_def dumps_sort_keys_def plain_stdlib_def moved_item_fields paths
      path_join_def Let_def moved_dict sorted_keys_example render_value_def str_int_512 str_int_def
      str_nat.simps digit_def)

text \<open>
  Claim C1, as stated, fails: the tuple holds the file name only, while the path starts
  with the directory of the image.  Two items with the same tuple in two directories
  get two paths.
\<close>

theorem latent_path_counterexample:
  "latent_tuple example_item_done = latent_tuple moved_item
   \<and> fst (get_latent_path plain_stdlib example_item_done True)
       \<noteq> fst (get_latent_path plain_stdlib moved_item True)"
proof -
  have "latent_tuple example_item_done = latent_tuple moved_item"
    by (simp add: latent_tuple_def done_item_fields done_keys moved_item_fields paths)
  moreover have "fst (get_latent_path plain_stdlib example_item_done True)
       \<noteq> fst (get_latent_path plain_stdlib moved_item True)"
    by (simp add: get_latent_path_def example_latent_path moved_latent_path done_item_fields
        moved_item_fields)
  ultimately show ?thesis by simp
qed

lemma latent_tuple_dict:
  assumes "latent_tuple a = latent_tuple b"
  shows "get_latent_info_dict a = get_latent_info_dict b"
    and "basename (path a) = basename (path b)"
  using assms by (simp_all add: latent_tuple_def get_latent_info_dict_def)

lemma latent_dict_keys:
  "map fst (get_latent_info_dict self) =
     [''filename'', ''scale_to_width'', ''scale_to_height'', ''crop_x'', ''crop_y'',
      ''crop_width'', ''crop_height'', ''latent_space_version'', ''latent_version'']
     @ (if flip_x self then [''flip_x''] else []) @ (if flip_y self then [''flip_y''] else [])"
  by (simp add: get_latent_info_dict_def)

text \<open>
  Claim C1, amended.  The path that \<^verbatim>\<open>get_latent_path\<close> computes is a function of
  the tuple and of the directory of the item's path; it is computed when
  \<^verbatim>\<open>recalculate\<close> is set or no path is stored, and a stored path is returned as it is
  otherwise.  The dictionary has the key \<^verbatim>\<open>flip_x\<close> (\<^verbatim>\<open>flip_y\<close>) exactly when the
  flag is true.  The path is the cache directory joined with the stem, an underscore,
  the digest without \<^verbatim>\<open>=\<close> and the extension, where the digest is taken of the JSON
  text of the same entries in ascending order of their keys.
\<close>

theorem latent_path_from_key:
  "(latent_tuple a = latent_tuple b \<and> dirname (path a) = dirname (path b)
      \<longrightarrow> compute_latent_path lib a = compute_latent_path lib b)
   \<and> fst (get_latent_path lib self True) = compute_latent_path lib self
   \<and> (latent_path self = None \<longrightarrow>
        fst (get_latent_path lib self recalculate) = compute_latent_path lib self)
   \<and> (latent_path self = Some p \<longrightarrow> fst (get_latent_path lib self False) = p)
   \<and> (''flip_x'' \<in> set (map fst (get_latent_info_dict self))) = flip_x self
   \<and> (''flip_y'' \<in> set (map fst (get_latent_info_dict self))) = flip_y self
   \<and> compute_latent_path lib self =
        path_join (path_join (dirname (path self)) ''_latent_cache'')
          (splitext_root (basename (path self)) @ ''_''
           @ filter (\<lambda>c. c \<noteq> CHR ''='')
               (md5_b64 lib (json_dumps lib (sort_key fst (get_latent_info_dict self))))
           @ ''.safetensors'')
   \<and> sorted (map fst (sort_key fst (get_latent_info_dict self)))
   \<and> mset (sort_key fst (get_latent_info_dict self)) = mset (get_latent_info_dict self)"
proof (intro conjI impI)
  assume "latent_tuple a = latent_tuple b \<and> dirname (path a) = dirname (path b)"
  with latent_tuple_dict [of a b] show "compute_latent_path lib a = compute_latent_path lib b"
    by (simp add: compute_latent_path_def)
next
  show "fst (get_latent_path lib self True) = compute_latent_path lib self"
    by (simp add: get_latent_path_def split: option.splits)
next
  assume "latent_path self = None"
  then show "fst (get_latent_path lib self recalculate) = compute_latent_path lib self"
    by (simp add: get_latent_path_def)
next
  assume "latent_path self = Some p"
  then show "fst (get_latent_path lib self False) = p"
    by (simp add: get_latent_path_def)
next
  show "(''flip_x'' \<in> set (map fst (get_latent_info_dict self))) = flip_x self"
    by (simp add: latent_dict_keys)
next
  show "(''flip_y'' \<in> set (map fst (get_latent_info_dict self))) = flip_y self"
    by (simp add: latent_dict_keys)
next
  show "compute_latent_path lib self =
        path_join (path_join (dirname (path self)) ''_latent_cache'')
          (splitext_root (basename (path self)) @ ''_''
           @ filter (\<lambda>c. c \<noteq> CHR ''='')
               (md5_b64 lib (json_dumps lib (sort_key fst (get_latent_info_dict self))))
           @ ''.safetensors'')"
    by (simp add: compute_latent_path_def dumps_sort_keys_def Let_def)
next
  show "sorted (map fst (sort_key fst (get_latent_info_dict self)))"
    by (rule sorted_sort_key)
next
  show "mset (sort_key fst (get_latent_info_dict self)) = mset (get_latent_info_dict self)"
    by (rule mset_sort)
qed

lemma cached_item_fields:
  "path cached_item = ''/data//cat.png''" "latent_path cached_item = Some ''/stale.safetensors''"
  by (simp_all add: cached_item_def)

lemma cached_paths:
  "basename ''/data//cat.png'' = ''cat.png''" "dirname ''/data//cat.png'' = ''/data''"
  by (simp_all add: basename_def dirname_def Let_def)

theorem latent_path_from_key_witness:
  "compute_latent_path plain_stdlib example_item_done = compute_latent_path plain_stdlib cached_item
   \<and> fst (get_latent_path plain_stdlib example_item_done False)
       = compute_latent_path plain_stdlib example_item_done
   \<and> fst (get_latent_path plain_stdlib cached_item False) = ''/stale.safetensors''"
proof -
  have t: "latent_tuple example_item_done = latent_tuple cached_item"
    by (simp add: latent_tuple_def cached_item_def done_item_fields paths cached_paths)
  have d: "dirname (path example_item_done) = dirname (path cached_item)"
    by (simp add: done_item_fields cached_item_fields paths cached_paths)
  from latent_path_from_key [of example_item_done cached_item plain_stdlib example_item_done False
      "''/stale.safetensors''"]
    latent_path_from_key [of example_item_done cached_item plain_stdlib cached_item False
      "''/stale.safetensors''"] t d
  show ?thesis
    by (simp add: done_item_fields cached_item_fields)
qed

section \<open>The replay record\<close>

lemma swap_sizes_keeps:
  "aug_replay_spatial_transforms (swap_sizes self) = aug_replay_spatial_transforms self"
  "dataset_config (swap_sizes self) = dataset_config self"
  "mask_min_value (swap_sizes self) = mask_min_value self"
  "flip_x (swap_sizes self) = flip_x self" "flip_y (swap_sizes self) = flip_y self"
  by (simp_all add: swap_sizes_def)

lemma class_names:
  "class_name flip_step = ''HorizontalFlip''" "class_name rotate_step = ''Rotate''"
  "class_name jitter_step = ''ColorJitter''" "class_name noise_step = ''GaussNoise''"
  "class_name skipped_step = ''VerticalFlip''"
  by (simp_all add: class_name_def flip_step_def rotate_step_def jitter_step_def noise_step_def
      skipped_step_def)

lemma step_flags:
  "applied flip_step" "applied rotate_step" "applied jitter_step" "\<not> applied noise_step"
  "\<not> applied skipped_step"
  by (simp_all add: flip_step_def rotate_step_def jitter_step_def noise_step_def skipped_step_def)

lemma aug_item_fields:
  "\<not> shuffle_augmentations (dataset_config aug_item)" "aug_transform aug_item = Some demo_pipeline"
  by (simp_all add: aug_item_def example_item_done_def example_item_def example_config_def)

lemma demo_calls:
  "compose_call demo_imaging pipeline img g =
     (Composed pipeline demo_capture img, demo_capture, snd (draw g))"
  "replay_call demo_imaging r img g = (Replay r img, g)"
  "mode_of demo_imaging = pil_mode"
  by (simp_all add: demo_imaging_def)

lemma aug_item_run:
  "augment_image demo_imaging aug_item (Opened ''/data/cat.png'') None [] =
     Inr (ToTensor (FromArray (CvtColorBGR2RGB
            (Composed demo_pipeline demo_capture (ArrayBGR (Opened ''/data/cat.png''))))),
          aug_item\<lparr>unaugmented_tensor := Some (ToTensor (Opened ''/data/cat.png'')),
                   aug_replay_spatial_transforms := Some demo_kept\<rparr>, [])"
  by (simp add: augment_image_def aug_item_fields and_then_def apply_transform_def Let_def
      demo_calls demo_capture_def demo_kept_def class_names spatial_transforms_def)

text \<open>
  Claim C6, as stated, fails: the record is filtered by class name only.  A captured
  step that was not executed (\<^verbatim>\<open>applied\<close> is false, as for a flip that the
  pipeline skipped) is stored when its class is spatial, so the stored steps are not the
  executed ones.
\<close>

theorem replay_record_counterexample:
  "augment_image demo_imaging aug_item (Opened ''/data/cat.png'') None [] =
     Inr (ToTensor (FromArray (CvtColorBGR2RGB
            (Composed demo_pipeline demo_capture (ArrayBGR (Opened ''/data/cat.png''))))),
          aug_item\<lparr>unaugmented_tensor := Some (ToTensor (Opened ''/data/cat.png'')),
                   aug_replay_spatial_transforms := Some demo_kept\<rparr>, [])
   \<and> transforms demo_kept = [flip_step, skipped_step, rotate_step]
   \<and> \<not> applied skipped_step
   \<and> executed_spatial_steps demo_capture = [flip_step, rotate_step]
   \<and> transforms demo_kept \<noteq> executed_spatial_steps demo_capture"
proof -
  have "executed_spatial_steps demo_capture = [flip_step, rotate_step]"
    by (simp add: executed_spatial_steps_def demo_capture_def class_names step_flags)
  moreover have "transforms demo_kept = [flip_step, skipped_step, rotate_step]"
    by (simp add: demo_kept_def)
  ultimately show ?thesis
    by (simp add: aug_item_run step_flags)
qed

text \<open>
  Claim C6, amended.  \<^verbatim>\<open>augment_image\<close> calls the pipeline that the item holds (the
  one rebuilt just before, when \<^verbatim>\<open>shuffle_augmentations\<close> is set) on the BGR array of
  the image, with the stream that the transform of the unaugmented image has left.  The
  stored record is the captured record with its list of steps filtered: it keeps
  exactly the captured steps, executed or not, whose class name (the part of
  \<^verbatim>\<open>__class_fullname__\<close> after the last dot) is one of the ten spatial names, as they
  were captured and in their order; every other step is dropped.  The tensor returned
  is the transform of the pipeline's image.
\<close>

theorem augment_image_keeps_spatial:
  assumes "augment_image lib self img transform g = Inr (t, self', g')"
  shows "\<exists>self1 g1 pipeline out captured g3.
      (if shuffle_augmentations (dataset_config self)
       then build_augmentation_transform lib self g else Inr (self, g)) = Inr (self1, g1)
    \<and> aug_transform self1 = Some pipeline
    \<and> compose_call lib pipeline (ArrayBGR img) (snd (apply_transform transform img g1))
         = (out, captured, g3)
    \<and> aug_replay_spatial_transforms self' =
         Some (captured\<lparr>transforms :=
           filter (\<lambda>s. class_name s \<in> {''Rotate'', ''Flip'', ''HorizontalFlip'', ''VerticalFlip'',
                     ''Resize'', ''Crop'', ''RandomCrop'', ''ElasticTransform'',
                     ''GridDistortion'', ''OpticalDistortion''}) (transforms captured)\<rparr>)
    \<and> unaugmented_tensor self' = Some (fst (apply_transform transform img g1))
    \<and> (t, g') = apply_transform transform (FromArray (CvtColorBGR2RGB out)) g3"
proof -
  from assms obtain self1 g1 where
    b: "(if shuffle_augmentations (dataset_config self)
               then build_augmentation_transform lib self g else Inr (self, g)) = Inr (self1, g1)"
    by (auto simp: augment_image_def and_then_def split: sum.splits)
  obtain u g2 where u: "apply_transform transform img g1 = (u, g2)"
    by (cases "apply_transform transform img g1")
  from assms b u obtain pipeline where
    p: "aug_transform self1 = Some pipeline"
    by (auto simp: augment_image_def and_then_def Let_def split: option.splits)
  obtain out captured g3 where
    c: "compose_call lib pipeline (ArrayBGR img) g2 = (out, captured, g3)"
    by (cases "compose_call lib pipeline (ArrayBGR img) g2") auto
  obtain t' g4 where t: "apply_transform transform (FromArray (CvtColorBGR2RGB out)) g3 = (t', g4)"
    by (cases "apply_transform transform (FromArray (CvtColorBGR2RGB out)) g3")
  from assms b u p c t
  have r: "t = t'" "g' = g4"
    "self' = self1\<lparr>unaugmented_tensor := Some u,
       aug_replay_spatial_transforms := Some (captured\<lparr>transforms :=
         filter (\<lambda>s. class_name s \<in> set spatial_transforms) (transforms captured)\<rparr>)\<rparr>"
    by (simp_all add: augment_image_def and_then_def Let_def)
  have names: "set spatial_transforms = {''Rotate'', ''Flip'', ''HorizontalFlip'', ''VerticalFlip'',
                     ''Resize'', ''Crop'', ''RandomCrop'', ''ElasticTransform'',
                     ''GridDistortion'', ''OpticalDistortion''}"
    by (simp add: spatial_transforms_def)
  show ?thesis
    by (intro exI [of _ self1] exI [of _ g1] exI [of _ pipeline] exI [of _ out]
        exI [of _ captured] exI [of _ g3])
      (simp add: b p u c t r names [symmetric])
qed

theorem augment_image_keeps_spatial_witness:
  "augment_image demo_imaging aug_item (Opened ''/data/cat.png'') None [] =
     Inr (ToTensor (FromArray (CvtColorBGR2RGB
            (Composed demo_pipeline demo_capture (ArrayBGR (Opened ''/data/cat.png''))))),
          aug_item\<lparr>unaugmented_tensor := Some (ToTensor (Opened ''/data/cat.png'')),
                   aug_replay_spatial_transforms := Some demo_kept\<rparr>, [])
   \<and> transforms demo_capture = [jitter_step, flip_step, skipped_step, noise_step, rotate_step]
   \<and> Some demo_kept = Some (demo_capture\<lparr>transforms := [flip_step, skipped_step, rotate_step]\<rparr>)"
proof -
  from augment_image_keeps_spatial [OF aug_item_run]
  have "Some demo_kept =
         Some (demo_capture\<lparr>transforms :=
           filter (\<lambda>s. class_name s \<in> {''Rotate'', ''Flip'', ''HorizontalFlip'', ''VerticalFlip'',
                     ''Resize'', ''Crop'', ''RandomCrop'', ''ElasticTransform'',
                     ''GridDistortion'', ''OpticalDistortion''}) (transforms demo_capture)\<rparr>)"
    by (auto simp: aug_item_fields demo_calls)
  moreover have "transforms demo_capture = [jitter_step, flip_step, skipped_step, noise_step, rotate_step]"
    by (simp add: demo_capture_def)
  ultimately show ?thesis
    by (simp add: aug_item_run class_names)
qed

section \<open>Replay on a companion image\<close>

lemma mask_item_fields:
  "mask_path mask_item = Some ''/masks/cat.png''" "aug_replay_spatial_transforms mask_item = Some demo_kept"
  "scale_to_width mask_item = 598" "scale_to_height mask_item = 448"
  "crop_x mask_item = 11" "crop_y mask_item = 0" "crop_width mask_item = 576" "crop_height mask_item = 448"
  "\<not> flip_x mask_item" "\<not> flip_y mask_item" "\<not> use_alpha_as_mask mask_item"
  "\<not> invert_mask (dataset_config mask_item)" "cfg_buckets (dataset_config mask_item)"
  "mask_min_value mask_item = 0"
  by (simp_all add: mask_item_def example_item_done_def example_item_def example_config_def)

text \<open>
  Claim C7, as stated, fails: the transform is applied after the replay and may draw
  from the random stream, as a torchvision transform with a random step does.  Two
  invocations with the same record, the same image and the same such transform return
  different tensors.
\<close>

theorem replay_counterexample:
  "aug_replay_spatial_transforms mask_item = Some demo_kept
   \<and> map_sum id fst
        (augment_spatial_control demo_imaging mask_item mask_demo_cropped (Some coin_transform) [0])
     \<noteq> map_sum id fst
        (augment_spatial_control demo_imaging mask_item mask_demo_cropped (Some coin_transform) [1])"
  by (simp add: augment_spatial_control_def mask_item_fields demo_calls apply_transform_def
      coin_transform_def Let_def)

text \<open>
  The model does not make the replay of the library deterministic either: with a
  library whose replay call draws, the tensors differ also for a transform that does
  not draw.
\<close>

lemma replay_follows_library:
  "map_sum id fst
        (augment_spatial_control restless_imaging mask_item mask_demo_cropped (Some to_tensor) [0])
     \<noteq> map_sum id fst
        (augment_spatial_control restless_imaging mask_item mask_demo_cropped (Some to_tensor) [1])"
  by (simp add: augment_spatial_control_def mask_item_fields restless_imaging_def demo_imaging_def
      apply_transform_def to_tensor_def Let_def)

text \<open>
  Claim C7, amended.  With a captured record, \<^verbatim>\<open>augment_spatial_control\<close> hands the
  library the stored record, unchanged, and the BGR array of the RGB copy of the image;
  it converts what the library returns back to the mode of the image and applies
  \<^verbatim>\<open>transform\<close>.  It makes no draw of its own: the stream goes to the replay call and
  from there to the transform.  So when the library's replay of the record on that
  array returns one image \<open>replayed\<close> whatever the stream, and the transform of the
  converted image returns one tensor \<open>t\<close> whatever the stream, every invocation with
  that record, image and transform returns \<open>t\<close>, whatever the state of the stream and
  the other fields of the item.
\<close>

theorem replay_deterministic:
  assumes "aug_replay_spatial_transforms self1 = Some record"
    and "aug_replay_spatial_transforms self2 = Some record"
    and "\<forall>g. fst (replay_call lib record (ArrayBGR (Convert ''RGB'' img)) g) = replayed"
    and "\<forall>g. fst (apply_transform transform
                  (Convert (mode_of lib img) (FromArray (CvtColorBGR2RGB replayed))) g) = t"
  shows "map_sum id fst (augment_spatial_control lib self1 img transform g1) = Inr t
       \<and> map_sum id fst (augment_spatial_control lib self2 img transform g2) = Inr t
       \<and> map_sum id snd (augment_spatial_control lib self1 img transform g1) =
           Inr (snd (apply_transform transform
                  (Convert (mode_of lib img) (FromArray (CvtColorBGR2RGB replayed)))
                  (snd (replay_call lib record (ArrayBGR (Convert ''RGB'' img)) g1))))"
proof -
  have run: "augment_spatial_control lib self img transform g =
      Inr (apply_transform transform
             (Convert (mode_of lib img) (FromArray (CvtColorBGR2RGB replayed)))
             (snd (replay_call lib record (ArrayBGR (Convert ''RGB'' img)) g)))"
    if "aug_replay_spatial_transforms self = Some record" for self g
  proof -
    obtain out g' where c: "replay_call lib record (ArrayBGR (Convert ''RGB'' img)) g = (out, g')"
      by (cases "replay_call lib record (ArrayBGR (Convert ''RGB'' img)) g")
    with assms(3) have "out = replayed" by (metis fst_conv)
    with c that show ?thesis by (simp add: augment_spatial_control_def Let_def)
  qed
  from assms(4) show ?thesis
    by (simp add: run [OF assms(1)] run [OF assms(2)])
qed

theorem replay_deterministic_witness:
  "aug_replay_spatial_transforms mask_item = Some demo_kept
   \<and> aug_replay_spatial_transforms (swap_sizes mask_item) = Some demo_kept
   \<and> map_sum id fst
        (augment_spatial_control demo_imaging mask_item mask_demo_cropped (Some to_tensor) [3, 1])
      = Inr (ToTensor (Convert ''L'' (FromArray (CvtColorBGR2RGB
              (Replay demo_kept (ArrayBGR (Convert ''RGB'' mask_demo_cropped)))))))
   \<and> map_sum id fst
        (augment_spatial_control demo_imaging (swap_sizes mask_item) mask_demo_cropped
           (Some to_tensor) [7])
      = Inr (ToTensor (Convert ''L'' (FromArray (CvtColorBGR2RGB
              (Replay demo_kept (ArrayBGR (Convert ''RGB'' mask_demo_cropped)))))))
   \<and> map_sum id snd
        (augment_spatial_control demo_imaging mask_item mask_demo_cropped (Some to_tensor) [3, 1])
      = Inr [3, 1]"
proof -
  have a: "aug_replay_spatial_transforms mask_item = Some demo_kept"
    by (simp add: mask_item_fields)
  have b: "aug_replay_spatial_transforms (swap_sizes mask_item) = Some demo_kept"
    by (simp add: swap_sizes_keeps mask_item_fields)
  have c: "\<forall>g. fst (replay_call demo_imaging demo_kept (ArrayBGR (Convert ''RGB'' mask_demo_cropped)) g)
      = Replay demo_kept (ArrayBGR (Convert ''RGB'' mask_demo_cropped))"
    by (simp add: demo_calls)
  have m: "mode_of demo_imaging mask_demo_cropped = ''L''"
    by (simp add: demo_calls mask_demo_cropped_def)
  have d: "\<forall>g. fst (apply_transform (Some to_tensor)
                  (Convert (mode_of demo_imaging mask_demo_cropped) (FromArray (CvtColorBGR2RGB
                     (Replay demo_kept (ArrayBGR (Convert ''RGB'' mask_demo_cropped)))))) g)
      = ToTensor (Convert ''L'' (FromArray (CvtColorBGR2RGB
              (Replay demo_kept (ArrayBGR (Convert ''RGB'' mask_demo_cropped))))))"
    by (simp add: apply_transform_def to_tensor_def m)
  from replay_deterministic [OF a b c d, of "[3, 1]" "[7]"] a b show ?thesis
    by (simp add: demo_calls apply_transform_def to_tensor_def)
qed

section \<open>Loading a mask\<close>

lemma mask_source_cases:
  "mask_source lib self p =
     (if use_alpha_as_mask self \<and> array_channels lib (Opened p) = None then Inl IndexError
      else if use_alpha_as_mask self \<and> array_channels lib (Opened p) \<noteq> Some 4 then Inl ValueError
      else Inr (let opened = (if use_alpha_as_mask self then AlphaToRGB (Opened p) else Opened p)
                in if invert_mask (dataset_config self) then Invert (Convert ''RGB'' opened)
                   else Convert ''RGB'' opened))"
  by (auto simp: mask_source_def alpha_to_rgb_def and_then_def Let_def split: option.splits)

lemma load_mask_image_opened:
  assumes "mask_path self = Some p" "can_open lib p" "mask_source lib self p = Inr img"
  shows "load_mask_image lib self g =
      (let self1 = (if fix_size lib self img then swap_sizes self else self)
       in case mask_grayscale lib self1 img g of
            (Inl e, g1) \<Rightarrow> (Some e, self1, g1)
          | (Inr gray, g1) \<Rightarrow>
              if cfg_buckets (dataset_config self1) then
                (case (if aug_replay_spatial_transforms self1 \<noteq> None
                       then augment_spatial_control lib self1 (mask_cropped self1 gray) (Some to_tensor) g1
                       else Inr (to_tensor (mask_cropped self1 gray) g1)) of
                   Inl e \<Rightarrow> (Some e, self1, g1)
                 | Inr (t, g2) \<Rightarrow>
                     (None, self1\<lparr>mask_tensor := Some (ValueMap 0 1 (mask_min_value self1) 1 t)\<rparr>, g2))
              else (Some PlainException, self1, g1))"
  using assms by (simp add: load_mask_image_def Let_def split: prod.splits sum.splits)

lemma load_mask_image_item:
  assumes "mask_path self = Some p" "can_open lib p" "mask_source lib self p = Inr img"
  shows "geometry (fst (snd (load_mask_image lib self g))) =
      geometry (if fix_size lib self img then swap_sizes self else self)"
  using assms
  by (simp add: load_mask_image_opened Let_def geometry_def split: prod.splits sum.splits)

lemma load_mask_image_no_source:
  assumes "mask_path self = Some p" "can_open lib p" "mask_source lib self p = Inl e"
  shows "load_mask_image lib self g = (Some e, self, g)"
  using assms by (simp add: load_mask_image_def)

text \<open>
  Claim C10.  When the mask opens and the image \<^verbatim>\<open>img\<close> of size \<open>(w, h)\<close> is
  obtained from it, \<^verbatim>\<open>load_mask_image\<close> leaves the item with its geometry swapped
  (\<^verbatim>\<open>scale_to_width\<close> with \<^verbatim>\<open>scale_to_height\<close>, \<^verbatim>\<open>crop_width\<close> with
  \<^verbatim>\<open>crop_height\<close>, \<^verbatim>\<open>crop_x\<close> with \<^verbatim>\<open>crop_y\<close>) exactly when the orientation of the
  mask disagrees with the stored geometry, also when the call ends in an exception
  later on; otherwise the geometry is unchanged.  The image is obtained unless the alpha
  channel is asked for and the array of the file does not have four channels: then the
  copy of the channel raises before the sizes are compared, and the item is left as it
  was.
\<close>

theorem load_mask_image_swaps_geometry:
  assumes "mask_path self = Some p" "can_open lib p"
  shows "(mask_source lib self p = Inr img \<and> size_of lib img = (w, h) \<longrightarrow>
            geometry (fst (snd (load_mask_image lib self g))) =
              (if (w > h \<and> scale_to_width self < scale_to_height self)
                  \<or> (h > w \<and> scale_to_height self < scale_to_width self)
               then (scale_to_height self, scale_to_width self, crop_height self, crop_width self,
                     crop_y self, crop_x self)
               else geometry self))
       \<and> (mask_source lib self p = Inl e \<longrightarrow> load_mask_image lib self g = (Some e, self, g))
       \<and> ((\<exists>src. mask_source lib self p = Inr src)
            = (use_alpha_as_mask self \<longrightarrow> array_channels lib (Opened p) = Some 4))"
proof (intro conjI impI)
  assume a: "mask_source lib self p = Inr img \<and> size_of lib img = (w, h)"
  then have "fix_size lib self img =
      ((w > h \<and> scale_to_width self < scale_to_height self)
          \<or> (h > w \<and> scale_to_height self < scale_to_width self))"
    by (auto simp: fix_size_def)
  then show "geometry (fst (snd (load_mask_image lib self g))) =
              (if (w > h \<and> scale_to_width self < scale_to_height self)
                  \<or> (h > w \<and> scale_to_height self < scale_to_width self)
               then (scale_to_height self, scale_to_width self, crop_height self, crop_width self,
                     crop_y self, crop_x self)
               else geometry self)"
    using load_mask_image_item [OF assms, of img g] a
    by (simp add: geometry_def swap_sizes_def)
next
  assume "mask_source lib self p = Inl e"
  with assms show "load_mask_image lib self g = (Some e, self, g)"
    by (rule load_mask_image_no_source)
next
  show "(\<exists>src. mask_source lib self p = Inr src)
            = (use_alpha_as_mask self \<longrightarrow> array_channels lib (Opened p) = Some 4)"
    by (auto simp: mask_source_cases)
qed

lemma portrait_fields:
  "can_open portrait_imaging ''/masks/cat.png''" "size_of portrait_imaging img = (1200, 1600)"
  "can_open demo_imaging ''/masks/cat.png''" "size_of demo_imaging img = (1600, 1200)"
  "array_channels portrait_imaging img = Some 3" "array_channels demo_imaging img = Some 3"
  "can_open alpha_imaging ''/masks/cat.png''" "size_of alpha_imaging img = (1200, 1600)"
  "array_channels alpha_imaging img = Some 4"
  by (simp_all add: alpha_imaging_def portrait_imaging_def demo_imaging_def)

lemma alpha_item_fields:
  "mask_path alpha_item = Some ''/masks/cat.png''" "use_alpha_as_mask alpha_item"
  "\<not> invert_mask (dataset_config alpha_item)"
  "geometry alpha_item = (598, 448, 576, 448, 11, 0)"
  "scale_to_width alpha_item = 598" "scale_to_height alpha_item = 448"
  "crop_x alpha_item = 11" "crop_y alpha_item = 0" "crop_width alpha_item = 576" "crop_height alpha_item = 448"
  by (simp_all add: alpha_item_def mask_item_def example_item_done_def example_item_def
      example_config_def geometry_def)

theorem load_mask_image_swaps_geometry_witness:
  "geometry mask_item = (598, 448, 576, 448, 11, 0)
   \<and> mask_source portrait_imaging mask_item ''/masks/cat.png''
        = Inr (Convert ''RGB'' (Opened ''/masks/cat.png''))
   \<and> geometry (fst (snd (load_mask_image portrait_imaging mask_item []))) = (448, 598, 448, 576, 0, 11)
   \<and> mask_source portrait_imaging alpha_item ''/masks/cat.png'' = Inl ValueError
   \<and> load_mask_image portrait_imaging alpha_item [] = (Some ValueError, alpha_item, [])
   \<and> mask_source alpha_imaging alpha_item ''/masks/cat.png''
        = Inr (Convert ''RGB'' (AlphaToRGB (Opened ''/masks/cat.png'')))
   \<and> geometry (fst (snd (load_mask_image alpha_imaging alpha_item []))) = (448, 598, 448, 576, 0, 11)"
proof -
  have s1: "mask_source portrait_imaging mask_item ''/masks/cat.png''
        = Inr (Convert ''RGB'' (Opened ''/masks/cat.png''))"
    by (simp add: mask_source_cases mask_item_fields)
  have s2: "mask_source portrait_imaging alpha_item ''/masks/cat.png'' = Inl ValueError"
    by (simp add: mask_source_cases alpha_item_fields portrait_fields)
  have s3: "mask_source alpha_imaging alpha_item ''/masks/cat.png''
        = Inr (Convert ''RGB'' (AlphaToRGB (Opened ''/masks/cat.png'')))"
    by (simp add: mask_source_cases alpha_item_fields portrait_fields)
  from load_mask_image_swaps_geometry [of mask_item "''/masks/cat.png''" portrait_imaging
      "Convert ''RGB'' (Opened ''/masks/cat.png'')" 1200 1600 "[]"] s1
  have g1: "geometry (fst (snd (load_mask_image portrait_imaging mask_item []))) = (448, 598, 448, 576, 0, 11)"
    by (simp add: mask_item_fields portrait_fields)
  from load_mask_image_swaps_geometry [of alpha_item "''/masks/cat.png''" portrait_imaging
      _ _ _ "[]" ValueError] s2
  have g2: "load_mask_image portrait_imaging alpha_item [] = (Some ValueError, alpha_item, [])"
    by (simp add: alpha_item_fields portrait_fields)
  from load_mask_image_swaps_geometry [of alpha_item "''/masks/cat.png''" alpha_imaging
      "Convert ''RGB'' (AlphaToRGB (Opened ''/masks/cat.png''))" 1200 1600 "[]"] s3
  have g3: "geometry (fst (snd (load_mask_image alpha_imaging alpha_item []))) = (448, 598, 448, 576, 0, 11)"
    by (simp add: alpha_item_fields portrait_fields)
  have "geometry mask_item = (598, 448, 576, 448, 11, 0)"
    by (simp add: geometry_def mask_item_fields)
  with s1 s2 s3 g1 g2 g3 show ?thesis by simp
qed

lemma two_thirds_unit:
  "random_unit [two_thirds_draw] = (6004799503160661 / 9007199254740992, [])"
  by (simp add: random_unit_def two_thirds_draw_def)

lemma blur_demo: "blur_radius 1200 (6004799503160661 / 9007199254740992) = Inr 4"
proof -
  have a: "py_mul 1200 (6004799503160661 / 9007199254740992) = Inr 800"
    by (rule mul_value [where k = 9 and n = 7036874417766400]) (simp_all add: round_even_def)
  have b: "rd (5 / 1000) = 5764607523034235 / 1152921504606846976"
    by (rule rd_value [where k = "- 8" and n = 5764607523034235]) (simp_all add: round_even_def)
  have c: "fmul 800 (5764607523034235 / 1152921504606846976) = Inr 4"
    unfolding fmul_def
    by (rule to_double_value [where k = 2 and n = 4503599627370496]) (simp_all add: round_even_def)
  show ?thesis
    by (simp only: blur_radius_def a and_then_def sum.case b c) (simp add: py_int_def)
qed

lemma mask_item_source:
  "mask_source demo_imaging mask_item ''/masks/cat.png'' = Inr (Convert ''RGB'' (Opened ''/masks/cat.png''))"
  by (simp add: mask_source_cases mask_item_fields)

lemma mask_item_gray:
  "mask_grayscale demo_imaging mask_item (Convert ''RGB'' (Opened ''/masks/cat.png'')) [two_thirds_draw] =
     (Inr (Convert ''L'' (GaussianBlur 4 (Convert ''RGB'' (Opened ''/masks/cat.png'')))), [])"
  by (simp add: mask_grayscale_def mask_flipped_def mask_item_fields portrait_fields
      two_thirds_unit blur_demo and_then_def)

lemma mask_item_run:
  "load_mask_image demo_imaging mask_item [two_thirds_draw] =
     (None, mask_item\<lparr>mask_tensor := Some mask_demo_tensor\<rparr>, [])"
proof -
  have "\<not> fix_size demo_imaging mask_item (Convert ''RGB'' (Opened ''/masks/cat.png''))"
    by (simp add: fix_size_def portrait_fields mask_item_fields)
  then show ?thesis
    by (simp add: load_mask_image_opened [OF _ _ mask_item_source] mask_item_fields
        portrait_fields mask_item_gray mask_cropped_def augment_spatial_control_def demo_calls
        apply_transform_def to_tensor_def mask_demo_tensor_def mask_demo_cropped_def Let_def)
qed

text \<open>
  Claim C8, as stated, fails: the conversion to the single channel comes before the
  resize, the crop and the replay.
\<close>

theorem mask_conversion_counterexample:
  "load_mask_image demo_imaging mask_item [two_thirds_draw] =
     (None, mask_item\<lparr>mask_tensor := Some mask_demo_tensor\<rparr>, [])
   \<and> mask_demo_tensor = ValueMap 0 1 0 1
         (ToTensor (Convert ''L'' (FromArray (CvtColorBGR2RGB
            (Replay demo_kept (ArrayBGR (Convert ''RGB''
              (Crop 11 0 587 448 (Resize 598 448 (Convert ''L'' (GaussianBlur 4
                 (Convert ''RGB'' (Opened ''/masks/cat.png'')))))))))))))
   \<and> tensor_L_before_replay mask_demo_tensor"
  by (simp add: mask_item_run mask_demo_tensor_def mask_demo_cropped_def)

text \<open>
  Claim C8, amended.  With a captured record, for a bucket dataset,
  \<^verbatim>\<open>load_mask_image\<close> builds the mask tensor in this order: the opened file (with the
  alpha channel copied into the colour channels, when that is asked for) is converted
  to RGB and inverted when configured; the sizes of the item are swapped when the
  orientation disagrees; the image is flipped as the item says; it is blurred with the
  radius \<^verbatim>\<open>int(min_size * random.random() * 0.005)\<close>; the blurred image is converted
  to the single channel \<^verbatim>\<open>'L'\<close>; that image is resized and cropped to the geometry
  of the item; the record is replayed by the library on the BGR array of an RGB copy of
  the crop; the result is converted back to the mode of the crop, made a tensor and
  mapped to the range from \<^verbatim>\<open>mask_min_value\<close>.  The conversion to one channel thus
  follows the blur and precedes the resize, the crop and the replay.
\<close>

theorem mask_gray_then_replay:
  assumes "mask_path self = Some p" "can_open lib p"
    and "use_alpha_as_mask self \<longrightarrow> array_channels lib (Opened p) = Some 4"
    and "cfg_buckets (dataset_config self)"
    and "aug_replay_spatial_transforms self = Some record"
    and "opened = (if use_alpha_as_mask self then AlphaToRGB (Opened p) else Opened p)"
    and "src = (if invert_mask (dataset_config self) then Invert (Convert ''RGB'' opened)
                else Convert ''RGB'' opened)"
    and "self1 = (if fix_size lib self src then swap_sizes self else self)"
    and "flipped = (if flip_y self
                    then FlipTopBottom (if flip_x self then FlipLeftRight src else src)
                    else (if flip_x self then FlipLeftRight src else src))"
    and "blur_radius (min (fst (size_of lib flipped)) (snd (size_of lib flipped)))
           (fst (random_unit g)) = Inr radius"
    and "cropped = Crop (crop_x self1) (crop_y self1) (crop_x self1 + crop_width self1)
                     (crop_y self1 + crop_height self1)
                     (Resize (scale_to_width self1) (scale_to_height self1)
                        (Convert ''L'' (GaussianBlur radius flipped)))"
    and "replay_call lib record (ArrayBGR (Convert ''RGB'' cropped)) (snd (random_unit g))
           = (replayed, g2)"
  shows "load_mask_image lib self g =
        (None,
         self1\<lparr>mask_tensor := Some (ValueMap 0 1 (mask_min_value self) 1
            (ToTensor (Convert (mode_of lib cropped) (FromArray (CvtColorBGR2RGB replayed)))))\<rparr>,
         g2)"
proof -
  from assms(3,6,7) have src: "mask_source lib self p = Inr src"
    by (auto simp: mask_source_cases Let_def)
  have keep: "aug_replay_spatial_transforms self1 = Some record"
    "cfg_buckets (dataset_config self1)" "mask_min_value self1 = mask_min_value self"
    "flip_x self1 = flip_x self" "flip_y self1 = flip_y self"
    using assms(4,5) by (simp_all add: assms(8) swap_sizes_keeps)
  have fl: "mask_flipped self1 src = flipped"
    by (simp add: mask_flipped_def keep assms(9) Let_def)
  obtain u g1 where u: "random_unit g = (u, g1)" by (cases "random_unit g")
  with assms(10) fl
  have gray: "mask_grayscale lib self1 src g = (Inr (Convert ''L'' (GaussianBlur radius flipped)), g1)"
    by (simp add: mask_grayscale_def Let_def and_then_def)
  have crop: "mask_cropped self1 (Convert ''L'' (GaussianBlur radius flipped)) = cropped"
    by (simp add: mask_cropped_def assms(11))
  from assms(12) u have rep: "replay_call lib record (ArrayBGR (Convert ''RGB'' cropped)) g1 = (replayed, g2)"
    by simp
  show ?thesis
    using keep gray crop rep
    by (simp add: load_mask_image_opened [OF assms(1,2) src] assms(8) [symmetric] Let_def
        augment_spatial_control_def apply_transform_def to_tensor_def)
qed

theorem mask_gray_then_replay_witness:
  "blur_radius 1200 (fst (random_unit [two_thirds_draw])) = Inr 4
   \<and> load_mask_image demo_imaging mask_item [two_thirds_draw] =
     (None, mask_item\<lparr>mask_tensor := Some (ValueMap 0 1 0 1
         (ToTensor (Convert ''L'' (FromArray (CvtColorBGR2RGB
            (Replay demo_kept (ArrayBGR (Convert ''RGB''
              (Crop 11 0 587 448 (Resize 598 448 (Convert ''L'' (GaussianBlur 4
                 (Convert ''RGB'' (Opened ''/masks/cat.png''))))))))))))))\<rparr>, [])"
proof -
  have nf: "\<not> fix_size demo_imaging mask_item (Convert ''RGB'' (Opened ''/masks/cat.png''))"
    by (simp add: fix_size_def portrait_fields mask_item_fields)
  have b: "blur_radius 1200 (fst (random_unit [two_thirds_draw])) = Inr 4"
    by (simp add: two_thirds_unit blur_demo)
  from mask_gray_then_replay [of mask_item "''/masks/cat.png''" demo_imaging demo_kept
      "Opened ''/masks/cat.png''" "Convert ''RGB'' (Opened ''/masks/cat.png'')" mask_item
      "Convert ''RGB'' (Opened ''/masks/cat.png'')" "[two_thirds_draw]" 4
      "Crop 11 0 587 448 (Resize 598 448 (Convert ''L'' (GaussianBlur 4
                 (Convert ''RGB'' (Opened ''/masks/cat.png'')))))"
      "Replay demo_kept (ArrayBGR (Convert ''RGB''
              (Crop 11 0 587 448 (Resize 598 448 (Convert ''L'' (GaussianBlur 4
                 (Convert ''RGB'' (Opened ''/masks/cat.png''))))))))" "[]"]
  have "load_mask_image demo_imaging mask_item [two_thirds_draw] =
     (None, mask_item\<lparr>mask_tensor := Some (ValueMap 0 1 0 1
         (ToTensor (Convert ''L'' (FromArray (CvtColorBGR2RGB
            (Replay demo_kept (ArrayBGR (Convert ''RGB''
              (Crop 11 0 587 448 (Resize 598 448 (Convert ''L'' (GaussianBlur 4
                 (Convert ''RGB'' (Opened ''/masks/cat.png''))))))))))))))\<rparr>, [])"
    by (simp add: mask_item_fields portrait_fields nf blur_demo two_thirds_unit demo_calls)
  with b show ?thesis by simp
qed

end
